theory Spec2Isabelle
  imports Complex_Main "HOL-Library.Word" "HOL-Library.AList"
begin

section \<open>JavaScript values used by the sources\<close>

text \<open>
  The two modules verified here are \<^verbatim>\<open>lib/RTSPClient.js\<close> (the control channel and
  the SETUP transport negotiation) and \<^verbatim>\<open>lib/FoscamStream.js\<close> (the talkback
  resampling pipeline). A JavaScript string is a list of 16-bit code units, a
  \<^verbatim>\<open>Buffer\<close> is a list of bytes, and every \<^verbatim>\<open>throw\<close> or rejected promise is a value
  of an error datatype. The names of headers and properties, which the source writes as
  literals, are \<open>string\<close>.
\<close>

type_synonym byte = "8 word"
type_synonym buffer = "byte list"
type_synonym code_unit = "16 word"
type_synonym js_string = "code_unit list"

text \<open>The JavaScript string of an ASCII literal.\<close>

definition js :: "string \<Rightarrow> js_string" where
  "js s = map of_char s"

subsection \<open>Strings: \<^verbatim>\<open>split\<close> and \<^verbatim>\<open>parseInt\<close>\<close>

text \<open>
  \<^verbatim>\<open>s.split(sep)\<close> for a one-character separator: the pieces between the
  separators, so the result is never empty (\<^verbatim>\<open>"".split(";")\<close> is \<^verbatim>\<open>[""]\<close>).
  \<^verbatim>\<open>s.split(sep, 2)\<close> keeps the first two pieces and drops the rest: it is
  \<open>take 2 (js_split sep s)\<close>.
\<close>

fun js_split :: "'a \<Rightarrow> 'a list \<Rightarrow> 'a list list" where
  "js_split sep [] = [[]]"
| "js_split sep (c # cs) =
     (if c = sep then [] # js_split sep cs
      else (case js_split sep cs of [] \<Rightarrow> [[c]] | p # ps \<Rightarrow> (c # p) # ps))"

text \<open>
  A JavaScript number that came out of \<^verbatim>\<open>parseInt\<close>: \<^verbatim>\<open>NaN\<close>, an integer that is
  a double, or an infinity.
\<close>

datatype number = NaN | Num int | Infinity | NegInfinity

text \<open>
  Doubles have 53 significant bits. \<open>bitlen n\<close> is the number of binary digits of
  \<open>n\<close>; \<open>round_half_even x y\<close> is the integer nearest to \<open>x / y\<close>, the even one of
  two that are equally near; \<open>nearest_double n\<close> is the double nearest to the integer
  \<open>n\<close>, or nothing when that is \<^verbatim>\<open>Infinity\<close>.
\<close>

function bitlen :: "nat \<Rightarrow> nat" where
  "bitlen n = (if n = 0 then 0 else Suc (bitlen (n div 2)))"
  by pat_completeness auto
termination
  by (relation "measure (\<lambda>n. n)") auto

definition round_half_even :: "nat \<Rightarrow> nat \<Rightarrow> nat" where
  "round_half_even x y =
     (let q = x div y; r = x mod y in
      if y < 2 * r \<or> (2 * r = y \<and> odd q) then q + 1 else q)"

definition nearest_double :: "nat \<Rightarrow> nat option" where
  "nearest_double n =
     (if bitlen n \<le> 53 then Some n
      else
        (let t = bitlen n - 53; v = round_half_even n (2 ^ t) * 2 ^ t in
         if 2 ^ 1024 \<le> v then None else Some v))"

text \<open>
  The characters \<^verbatim>\<open>parseInt\<close> skips at the front, \<^verbatim>\<open>StrWhiteSpaceChar\<close>: tab, line
  feed, vertical tab, form feed, carriage return, space, U+00A0, U+1680, U+2000 to
  U+200A, U+2028, U+2029, U+202F, U+205F, U+3000 and U+FEFF.
\<close>

definition is_white :: "code_unit \<Rightarrow> bool" where
  "is_white c =
     (let n = unat c in
      (9 \<le> n \<and> n \<le> 13) \<or> n = 32 \<or> n = 160 \<or> n = 5760
      \<or> (8192 \<le> n \<and> n \<le> 8202) \<or> n = 8232 \<or> n = 8233 \<or> n = 8239
      \<or> n = 8287 \<or> n = 12288 \<or> n = 65279)"

definition digit_value :: "code_unit \<Rightarrow> nat" where
  "digit_value c =
     (let n = unat c in
      if 48 \<le> n \<and> n \<le> 57 then n - 48
      else if 97 \<le> n \<and> n \<le> 122 then n - 87
      else if 65 \<le> n \<and> n \<le> 90 then n - 55
      else 36)"

text \<open>
  The longest prefix of digits of the radix, as a number: the double nearest to the
  integer the digits write.
\<close>

definition parse_digits :: "nat \<Rightarrow> js_string \<Rightarrow> number" where
  "parse_digits radix s =
     (let ds = takeWhile (\<lambda>c. digit_value c < radix) s in
      if ds = [] then NaN
      else (case nearest_double (foldl (\<lambda>a c. a * radix + digit_value c) 0 ds) of
              None \<Rightarrow> Infinity
            | Some v \<Rightarrow> Num (int v)))"

text \<open>
  \<^verbatim>\<open>parseInt(s)\<close> with no radix: leading white space is skipped, then an optional
  sign, then an optional \<^verbatim>\<open>0x\<close> (radix 16, otherwise 10), then the longest prefix of
  digits; no digit at all gives \<^verbatim>\<open>NaN\<close>. Whatever follows the digits is ignored.
\<close>

definition parseInt :: "js_string \<Rightarrow> number" where
  "parseInt s =
     (let s1 = dropWhile is_white s;
          (neg, s2) = (case s1 of
                         [] \<Rightarrow> (False, s1)
                       | c # cs \<Rightarrow> if c = of_char CHR ''-'' then (True, cs)
                                  else if c = of_char CHR ''+'' then (False, cs)
                                  else (False, s1));
          (radix, s3) = (case s2 of
                           a # b # cs \<Rightarrow>
                             if a = of_char CHR ''0''
                                \<and> (b = of_char CHR ''x'' \<or> b = of_char CHR ''X'')
                             then (16, cs) else (10, s2)
                         | _ \<Rightarrow> (10, s2))
      in case parse_digits radix s3 of
           NaN \<Rightarrow> NaN
         | Num n \<Rightarrow> Num (if neg then - n else n)
         | Infinity \<Rightarrow> (if neg then NegInfinity else Infinity)
         | NegInfinity \<Rightarrow> NegInfinity)"

text \<open>\<^verbatim>\<open>parseInt(undefined)\<close>, for a header that is absent, is \<^verbatim>\<open>NaN\<close>.\<close>

definition parseInt_header :: "js_string option \<Rightarrow> number" where
  "parseInt_header h = (case h of None \<Rightarrow> NaN | Some v \<Rightarrow> parseInt v)"

text \<open>
  Truthiness, as the source's \<^verbatim>\<open>if(x)\<close> and \<^verbatim>\<open>x && y\<close> test it: a string that is
  not empty, a number that is neither \<^verbatim>\<open>NaN\<close> nor 0.
\<close>

definition truthy_string :: "js_string option \<Rightarrow> bool" where
  "truthy_string v = (case v of None \<Rightarrow> False | Some s \<Rightarrow> s \<noteq> [])"

definition truthy_number :: "number option \<Rightarrow> bool" where
  "truthy_number v =
     (case v of
        None \<Rightarrow> False
      | Some NaN \<Rightarrow> False
      | Some (Num n) \<Rightarrow> n \<noteq> 0
      | Some Infinity \<Rightarrow> True
      | Some NegInfinity \<Rightarrow> True)"

text \<open>\<^verbatim>\<open>n.toString()\<close> for a port, a non-negative integer: its decimal digits.\<close>

function toString_nat :: "nat \<Rightarrow> js_string" where
  "toString_nat n =
     (if n < 10 then [of_nat (48 + n)]
      else toString_nat (n div 10) @ [of_nat (48 + n mod 10)])"
  by pat_completeness auto
termination
  by (relation "measure (\<lambda>n. n)") auto

text \<open>
  The quotient of two rates as the source computes it, \<^verbatim>\<open>inputRate / outputRate\<close> on
  doubles, for a positive divisor no greater than the dividend. The quotient is rounded
  to the nearest double: \<open>double_quotient a b\<close> is a pair \<open>(m, s)\<close> that stands for
  the double \<open>m / 2 ^ s\<close>. Where the divisor divides the dividend, the quotient of the
  two doubles is itself a double and the division is exact. \<open>integer_quotient a b\<close>
  is the quotient when it passes the test \<^verbatim>\<open>Math.floor(divider) != divider\<close> as an
  integer, and nothing when it fails it.
\<close>

definition double_quotient :: "nat \<Rightarrow> nat \<Rightarrow> nat \<times> nat" where
  "double_quotient a b =
     (let n = bitlen (a div b) in
      if n \<le> 53 then (round_half_even (a * 2 ^ (53 - n)) b, 53 - n)
      else (round_half_even a (b * 2 ^ (n - 53)) * 2 ^ (n - 53), 0))"

definition integer_quotient :: "nat \<Rightarrow> nat \<Rightarrow> nat option" where
  "integer_quotient a b =
     (if b dvd a then Some (a div b)
      else (case double_quotient a b of
              (m, s) \<Rightarrow> if 2 ^ s dvd m then Some (m div 2 ^ s) else None))"

section \<open>The RTSP control channel (\<^verbatim>\<open>lib/RTSPClient.js\<close>)\<close>

subsection \<open>Requests, responses and promises\<close>

text \<open>
  A request header is the number \<^verbatim>\<open>CSeq\<close>, a string, or \<^verbatim>\<open>null\<close> (\<^verbatim>\<open>teardown\<close>
  passes \<^verbatim>\<open>self.session\<close>, which may be \<^verbatim>\<open>null\<close>); an absent header is
  \<^verbatim>\<open>undefined\<close>. The decoder delivers response headers as strings under
  lower-case names.
\<close>

datatype header_value = HNumber nat | HString js_string | HNull

definition truthy_header :: "header_value option \<Rightarrow> bool" where
  "truthy_header v =
     (case v of
        None \<Rightarrow> False
      | Some HNull \<Rightarrow> False
      | Some (HNumber n) \<Rightarrow> n \<noteq> 0
      | Some (HString s) \<Rightarrow> s \<noteq> [])"

record request_options =
  req_method :: js_string
  uri :: js_string
  headers :: "string \<rightharpoonup> header_value"

record response =
  statusCode :: nat
  rheaders :: "string \<rightharpoonup> js_string"
  body :: buffer

text \<open>What a request's promise is fulfilled with: \<^verbatim>\<open>{response, data}\<close>.\<close>

record result =
  response :: response
  data :: buffer

text \<open>
  The object \<^verbatim>\<open>self.authenticate(challenge)\<close> returns (package
  \<^verbatim>\<open>www-authenticate\<close>, not part of the repository): its \<^verbatim>\<open>err\<close> field and its
  \<^verbatim>\<open>authorize(method, uri)\<close> function, taken to be a function that returns a
  string on every authenticator.
\<close>

datatype authenticator =
  Authenticator (err: "js_string option")
    (authorize: "js_string \<Rightarrow> js_string \<Rightarrow> js_string")

text \<open>
  The values the client rejects a promise with: the error of the socket or the decoder,
  \<^verbatim>\<open>{message, type: 'authentication'}\<close>, \<^verbatim>\<open>{message: 'No transport.', response}\<close>,
  \<^verbatim>\<open>{message: 'Could not parse transport.', transport, source, rtpPort, rtcpPort}\<close> and
  \<^verbatim>\<open>{message: 'Could not resolve source.', source}\<close>.
\<close>

datatype rtsp_error =
  TransportFailure js_string
| Authentication js_string
| NoTransport response
| CouldNotParseTransport js_string "js_string option" "number option" "number option"
| CouldNotResolveSource js_string

text \<open>
  A promise is pending, fulfilled, rejected, or was resolved with another promise and
  now follows it (\<^verbatim>\<open>resolve(self.makeRequest(...))\<close>). The promise of a request is
  named by the sequence number \<^verbatim>\<open>makeRequest\<close> gave the request.
\<close>

datatype 'a promise = Pending | Fulfilled 'a | Rejected rtsp_error | Follows nat

text \<open>
  What a caller holding promise \<open>k\<close> observes. A followed promise is always a later
  request, below the counter \<open>bound\<close>; a chain that does not go up is never settled.
\<close>

function observe :: "nat \<Rightarrow> (nat \<rightharpoonup> 'a promise) \<Rightarrow> nat \<Rightarrow> 'a promise" where
  "observe bound ps k =
     (case ps k of
        None \<Rightarrow> Pending
      | Some (Follows k') \<Rightarrow> if k < k' \<and> k' < bound then observe bound ps k' else Pending
      | Some p \<Rightarrow> p)"
  by pat_completeness auto
termination
  by (relation "measure (\<lambda>(bound, ps, k). bound - k)") auto

subsection \<open>The client\<close>

text \<open>
  The fields of the class, and the effects of its calls that a claim can observe:
  \<open>promises\<close> (the state of the promise of every request made), \<open>written\<close> (the
  requests handed to the encoder, in order), \<open>intervals\<close> (the running
  \<^verbatim>\<open>setInterval\<close> timers, \<open>intervalSeq\<close> the next handle) and \<open>connections\<close> (the
  number of \<^verbatim>\<open>net.createConnection\<close> calls). \<open>requests\<close> is the object
  \<^verbatim>\<open>self.requests\<close>, keys in insertion order, which \<^verbatim>\<open>for ... in\<close> walks. The
  counter \<open>cseq\<close> counts the requests made, far below \<open>2 ^ 53\<close>, where adding 1 to
  a double is exact.
\<close>

record client =
  authenticate :: "js_string \<Rightarrow> authenticator"
  authenticator :: "authenticator option"
  requests :: "(nat \<times> request_options) list"
  cseq :: nat
  session :: "js_string option"
  keepAliveInterval :: "nat option"
  pendingReconnect :: bool
  promises :: "nat \<rightharpoonup> result promise"
  written :: "request_options list"
  intervals :: "nat list"
  intervalSeq :: nat
  connections :: nat

text \<open>Settling a promise: \<^verbatim>\<open>resolve\<close> and \<^verbatim>\<open>reject\<close> act on a pending promise only.\<close>

definition settle :: "nat \<Rightarrow> result promise \<Rightarrow> client \<Rightarrow> client" where
  "settle k p s =
     (case promises s k of
        Some Pending \<Rightarrow> s\<lparr>promises := (promises s)(k \<mapsto> p)\<rparr>
      | _ \<Rightarrow> s)"

definition resolve :: "nat \<Rightarrow> result \<Rightarrow> client \<Rightarrow> client" where
  "resolve k v s = settle k (Fulfilled v) s"

definition reject :: "nat \<Rightarrow> rtsp_error \<Rightarrow> client \<Rightarrow> client" where
  "reject k e s = settle k (Rejected e) s"

text \<open>
  \<^verbatim>\<open>reconnect\<close>: an attempt in flight is shared, otherwise a connection is opened.
\<close>

definition reconnect :: "client \<Rightarrow> client" where
  "reconnect s =
     (if pendingReconnect s then s
      else s\<lparr>pendingReconnect := True, connections := connections s + 1\<rparr>)"

text \<open>
  The callback of \<^verbatim>\<open>net.createConnection\<close>, when the connection is made: the attempt
  is no longer in flight.
\<close>

definition connected :: "client \<Rightarrow> client" where
  "connected s = s\<lparr>pendingReconnect := False\<rparr>"

text \<open>
  \<^verbatim>\<open>onError\<close>: every pending request is rejected with the error and deleted, then the
  client reconnects. Every entry of \<^verbatim>\<open>self.requests\<close> is an object, so the
  \<^verbatim>\<open>if(!request) continue\<close> of the source never skips one.
\<close>

definition reject_request :: "rtsp_error \<Rightarrow> nat \<times> request_options \<Rightarrow> client \<Rightarrow> client" where
  "reject_request e entry s =
     (case entry of (key, request) \<Rightarrow>
        (let s1 = reject key e s in s1\<lparr>requests := AList.delete key (requests s1)\<rparr>))"

definition onError :: "rtsp_error \<Rightarrow> client \<Rightarrow> client" where
  "onError e s = reconnect (fold (reject_request e) (requests s) s)"

text \<open>\<^verbatim>\<open>newSession\<close> and \<^verbatim>\<open>closeSession\<close>.\<close>

definition clearInterval :: "nat option \<Rightarrow> client \<Rightarrow> client" where
  "clearInterval h s =
     (case h of None \<Rightarrow> s | Some t \<Rightarrow> s\<lparr>intervals := removeAll t (intervals s)\<rparr>)"

definition newSession :: "js_string \<Rightarrow> client \<Rightarrow> client" where
  "newSession sess s =
     (let s1 = s\<lparr>session := Some sess\<rparr>;
          s2 = clearInterval (keepAliveInterval s1) s1
      in s2\<lparr>keepAliveInterval := Some (intervalSeq s2),
             intervals := intervalSeq s2 # intervals s2,
             intervalSeq := intervalSeq s2 + 1\<rparr>)"

definition closeSession :: "client \<Rightarrow> client" where
  "closeSession s = clearInterval (keepAliveInterval s) (s\<lparr>session := None\<rparr>)"

text \<open>
  \<^verbatim>\<open>makeRequest\<close>: the next sequence number, the \<^verbatim>\<open>CSeq\<close> header, the
  \<^verbatim>\<open>Authorization\<close> header when there is an authenticator, the \<^verbatim>\<open>Session\<close> header
  when there is a session and the caller's options carry none; the request is written
  and recorded as pending. The result is the new promise and the client.
\<close>

definition makeRequest :: "request_options \<Rightarrow> client \<Rightarrow> nat \<times> client" where
  "makeRequest options s =
     (let c = cseq s;
          s1 = s\<lparr>cseq := c + 1\<rparr>;
          h1 = (headers options)(''CSeq'' \<mapsto> HNumber c);
          h2 = (case authenticator s1 of
                  None \<Rightarrow> h1
                | Some a \<Rightarrow>
                    h1(''Authorization'' \<mapsto> HString (authorize a (req_method options) (uri options))));
          h3 = (case session s1 of
                  None \<Rightarrow> h2
                | Some sess \<Rightarrow>
                    if sess \<noteq> [] \<and> \<not> truthy_header (h2 ''Session'')
                    then h2(''Session'' \<mapsto> HString sess) else h2);
          options' = options\<lparr>headers := h3\<rparr>
      in (c, s1\<lparr>written := written s1 @ [options'],
                 requests := AList.update c options' (requests s1),
                 promises := (promises s1)(c \<mapsto> Pending)\<rparr>))"

text \<open>
  \<^verbatim>\<open>done\<close>, the closure of \<^verbatim>\<open>onResponse\<close> that settles the request once the
  response is complete. With a positive \<^verbatim>\<open>content-length\<close> it runs at the end of the
  body, whose chunks are the data; otherwise it runs at once, before any data.
\<close>

definition response_data :: "response \<Rightarrow> buffer" where
  "response_data rsp =
     (if truthy_string (rheaders rsp ''content-length'') then
        (case parseInt_header (rheaders rsp ''content-length'') of
           NaN \<Rightarrow> []
         | Num n \<Rightarrow> if n > 0 then body rsp else []
         | Infinity \<Rightarrow> body rsp
         | NegInfinity \<Rightarrow> [])
      else [])"

definition done_response :: "nat \<Rightarrow> request_options \<Rightarrow> response \<Rightarrow> client \<Rightarrow> client" where
  "done_response c requestOptions rsp s =
     (let s1 = s\<lparr>requests := AList.delete c (requests s)\<rparr> in
      if statusCode rsp = 401 \<and> \<not> truthy_header (headers requestOptions ''Authorization'')
         \<and> truthy_string (rheaders rsp ''www-authenticate'')
      then
        (case rheaders rsp ''www-authenticate'' of
           None \<Rightarrow> s1
         | Some challenge \<Rightarrow>
             (let a = authenticate s1 challenge;
                  s2 = s1\<lparr>authenticator := Some a\<rparr>
              in if truthy_string (err a) then
                   reject c (Authentication (case err a of None \<Rightarrow> [] | Some msg \<Rightarrow> msg)) s2
                 else
                   (let (p, s3) = makeRequest requestOptions s2 in settle c (Follows p) s3)))
      else if (statusCode rsp = 401 \<or> statusCode rsp = 403)
              \<and> truthy_header (headers requestOptions ''Authorization'')
      then reject c (Authentication (js ''Authentication failed.'')) s1
      else resolve c \<lparr>response = rsp, data = response_data rsp\<rparr> s1)"

text \<open>
  \<^verbatim>\<open>onResponse\<close>: the pending request of the response's \<^verbatim>\<open>cseq\<close> header is looked
  up, and a response that matches none (also one whose \<^verbatim>\<open>cseq\<close> is \<^verbatim>\<open>NaN\<close> or
  infinite) is dropped; a session header replaces the
  session by its part before the first semicolon; then \<^verbatim>\<open>done\<close>. The response is
  taken with its whole body, so nothing happens between its headers and its end.
\<close>

definition onResponse :: "response \<Rightarrow> client \<Rightarrow> client" where
  "onResponse rsp s =
     (case parseInt_header (rheaders rsp ''cseq'') of
        Num n \<Rightarrow>
          if n < 0 then s
          else
            (case map_of (requests s) (nat n) of
               None \<Rightarrow> s
             | Some requestOptions \<Rightarrow>
                 (let s1 = (if truthy_string (rheaders rsp ''session'') then
                              (case rheaders rsp ''session'' of
                                 None \<Rightarrow> s
                               | Some v \<Rightarrow>
                                   (case js_split (of_char CHR '';'') v of
                                      [] \<Rightarrow> s
                                    | part # _ \<Rightarrow> newSession part s))
                            else s)
                  in done_response (nat n) requestOptions rsp s1))
      | _ \<Rightarrow> s)"

subsection \<open>SETUP: the transport negotiation\<close>

text \<open>
  The request \<^verbatim>\<open>setup\<close> makes, with the client's two ports in its
  \<^verbatim>\<open>Transport\<close> header.
\<close>

definition setup_request :: "js_string \<Rightarrow> nat \<Rightarrow> nat \<Rightarrow> client \<Rightarrow> nat \<times> client" where
  "setup_request trackURI rtpPort rtcpPort s =
     makeRequest
       \<lparr>req_method = js ''SETUP'', uri = trackURI,
        headers = [''Transport'' \<mapsto>
          HString (js ''RTP/AVP;unicast;client_port='' @ toString_nat rtpPort @ js ''-''
                   @ toString_nat rtcpPort)]\<rparr> s"

text \<open>
  The loop over \<^verbatim>\<open>transport.split(';')\<close>: one step for each value, on the variables
  \<^verbatim>\<open>source\<close>, \<^verbatim>\<open>rtpPort\<close> and \<^verbatim>\<open>rtcpPort\<close>, all \<^verbatim>\<open>null\<close> at the start. A value
  that is not \<^verbatim>\<open>key=value\<close> is skipped.
\<close>

definition setup_value ::
  "js_string \<Rightarrow> js_string option \<times> number option \<times> number option
     \<Rightarrow> js_string option \<times> number option \<times> number option" where
  "setup_value v vars =
     (case vars of (source, rtpPort, rtcpPort) \<Rightarrow>
        (case take 2 (js_split (of_char CHR ''='') v) of
           [key, val] \<Rightarrow>
             if key = js ''server_port'' then
               (case take 2 (js_split (of_char CHR ''-'') val) of
                  [p] \<Rightarrow> (source, Some (parseInt p), Some (parseInt p))
                | [p, q] \<Rightarrow> (source, Some (parseInt p), Some (parseInt q))
                | _ \<Rightarrow> vars)
             else if key = js ''source'' then (Some val, rtpPort, rtcpPort)
             else vars
         | _ \<Rightarrow> vars))"

definition setup_transport ::
  "js_string \<Rightarrow> js_string option \<times> number option \<times> number option" where
  "setup_transport transport =
     fold setup_value (js_split (of_char CHR '';'') transport) (None, None, None)"

text \<open>What \<^verbatim>\<open>setup\<close> resolves with: the source and the two ports as parsed.\<close>

record transport_result =
  source :: js_string
  rtpPort :: number
  rtcpPort :: number

text \<open>
  The continuation \<^verbatim>\<open>setup\<close> chains on the request, as the state of the promise
  \<^verbatim>\<open>setup\<close> returns. \<open>isV4Format\<close> and \<open>isV6Format\<close> are the tests of package
  \<^verbatim>\<open>ip\<close>; \<open>dns_resolve\<close> is what \<^verbatim>\<open>dns.resolve\<close> hands its callback for a host:
  an error, or the addresses. In the callback the source calls \<^verbatim>\<open>resolve\<close> on
  success; on failure it returns \<^verbatim>\<open>Promise.reject(...)\<close> to the resolver and calls
  neither \<^verbatim>\<open>resolve\<close> nor \<^verbatim>\<open>reject\<close>, so the promise stays pending.
\<close>

definition setup_then ::
  "(js_string \<Rightarrow> bool) \<Rightarrow> (js_string \<Rightarrow> bool)
     \<Rightarrow> (js_string \<Rightarrow> js_string + js_string list)
     \<Rightarrow> result \<Rightarrow> transport_result promise" where
  "setup_then isV4Format isV6Format dns_resolve res =
     (if \<not> truthy_string (rheaders (response res) ''transport'') then
        Rejected (NoTransport (response res))
      else
        (case rheaders (response res) ''transport'' of
           None \<Rightarrow> Rejected (NoTransport (response res))
         | Some transport \<Rightarrow>
             (case setup_transport transport of (src, rtp, rtcp) \<Rightarrow>
                if truthy_string src \<and> truthy_number rtp \<and> truthy_number rtcp then
                  (case (src, rtp, rtcp) of
                     (Some host, Some p, Some q) \<Rightarrow>
                       if isV4Format host \<or> isV6Format host then
                         Fulfilled \<lparr>source = host, rtpPort = p, rtcpPort = q\<rparr>
                       else
                         (case dns_resolve host of
                            Inl e \<Rightarrow> Pending
                          | Inr addresses \<Rightarrow>
                              (case addresses of
                                 [] \<Rightarrow> Pending
                               | address # _ \<Rightarrow>
                                   Fulfilled \<lparr>source = address, rtpPort = p, rtcpPort = q\<rparr>))
                   | _ \<Rightarrow> Rejected (CouldNotParseTransport transport src rtp rtcp))
                else Rejected (CouldNotParseTransport transport src rtp rtcp))))"

text \<open>
  The promise \<^verbatim>\<open>setup\<close> returns, from what the request's promise \<open>k\<close> is observed
  to be: a rejected request rejects it, a fulfilled one runs the continuation.
\<close>

definition setup_promise ::
  "(js_string \<Rightarrow> bool) \<Rightarrow> (js_string \<Rightarrow> bool)
     \<Rightarrow> (js_string \<Rightarrow> js_string + js_string list)
     \<Rightarrow> client \<Rightarrow> nat \<Rightarrow> transport_result promise" where
  "setup_promise isV4Format isV6Format dns_resolve s k =
     (case observe (cseq s) (promises s) k of
        Fulfilled res \<Rightarrow> setup_then isV4Format isV6Format dns_resolve res
      | Rejected e \<Rightarrow> Rejected e
      | _ \<Rightarrow> Pending)"

section \<open>The talkback pipeline (\<^verbatim>\<open>lib/FoscamStream.js\<close>)\<close>

subsection \<open>Buffers of 16-bit samples\<close>

text \<open>
  What \<^verbatim>\<open>resample\<close> throws: its own \<^verbatim>\<open>{message: 'Cannot evenly resample.'}\<close>, and
  the range error of a \<^verbatim>\<open>Buffer\<close> call (a read or write outside the buffer, a value
  outside 16 bits, a size that is no number).
\<close>

datatype stream_error = CannotEvenlyResample | RangeError

text \<open>
  \<^verbatim>\<open>buf.readInt16LE(offset)\<close> and \<^verbatim>\<open>buf.writeInt16LE(value, offset)\<close>: two bytes, the
  low one first, read as a two's complement number.
\<close>

definition readInt16LE :: "buffer \<Rightarrow> nat \<Rightarrow> stream_error + int" where
  "readInt16LE buf offset =
     (if offset + 1 < length buf then
        (let val = uint (buf ! offset) + uint (buf ! (offset + 1)) * 2 ^ 8
         in Inr (if 2 ^ 15 \<le> val then val - 2 ^ 16 else val))
      else Inl RangeError)"

definition writeInt16LE :: "int \<Rightarrow> nat \<Rightarrow> buffer \<Rightarrow> stream_error + buffer" where
  "writeInt16LE val offset buf =
     (if val > 0x7fff \<or> val < - 0x8000 then Inl RangeError
      else if offset + 1 < length buf then
        Inr (buf[offset := word_of_int val, offset + 1 := word_of_int (val div 2 ^ 8)])
      else Inl RangeError)"

text \<open>
  \<^verbatim>\<open>Math.round\<close>: the nearest integer, a half rounded up. The gain is a finite
  number and the arithmetic on it is exact, on reals; the doubles of the source agree
  with it wherever the quotient and the product are representable, as they are for
  16-bit samples and the gain 1.
\<close>

definition js_round :: "real \<Rightarrow> int" where
  "js_round x = \<lfloor>x + 1 / 2\<rfloor>"

subsection \<open>\<^verbatim>\<open>resample\<close>\<close>

text \<open>The inner loop of the downsampling branch: the sum (\<open>acc\<close>) of \<open>divider\<close> samples from \<open>i\<close>.\<close>

function sum_samples :: "buffer \<Rightarrow> nat \<Rightarrow> nat \<Rightarrow> nat \<Rightarrow> int \<Rightarrow> stream_error + int" where
  "sum_samples samples i divider j acc =
     (if j < divider then
        (case readInt16LE samples (i + j * 2) of
           Inl e \<Rightarrow> Inl e
         | Inr v \<Rightarrow> sum_samples samples i divider (Suc j) (acc + v))
      else Inr acc)"
  by pat_completeness auto
termination
  by (relation "measure (\<lambda>(samples, i, divider, j, acc). divider - j)") auto

text \<open>The saturation of the downsampling branch, at \<^verbatim>\<open>0x7fff\<close> and \<^verbatim>\<open>-0x7fff\<close>.\<close>

definition clip :: "int \<Rightarrow> int" where
  "clip sample =
     (if sample > 0x7fff then 0x7fff
      else if sample < - 0x7fff then - 0x7fff
      else sample)"

text \<open>
  The outer loop of the downsampling branch, from \<open>i\<close> and \<open>cursor\<close>; it returns the
  output buffer and the final \<open>i\<close>. The divider is positive wherever the loop is
  entered; the test \<open>0 < divider\<close> only makes the definition total.
\<close>

function downsample_loop ::
  "real \<Rightarrow> nat \<Rightarrow> buffer \<Rightarrow> nat \<Rightarrow> nat \<Rightarrow> buffer \<Rightarrow> stream_error + (buffer \<times> nat)" where
  "downsample_loop speakerGain divider samples i cursor output =
     (if 0 < divider \<and> i + divider * 2 \<le> length samples then
        (case sum_samples samples i divider 0 0 of
           Inl e \<Rightarrow> Inl e
         | Inr acc \<Rightarrow>
             (case writeInt16LE
                     (clip (js_round (real_of_int acc / real divider * speakerGain)))
                     cursor output of
                Inl e \<Rightarrow> Inl e
              | Inr output' \<Rightarrow>
                  downsample_loop speakerGain divider samples (i + divider * 2) (cursor + 2)
                    output'))
      else Inr (output, i))"
  by pat_completeness auto
termination
  by (relation "measure (\<lambda>(speakerGain, divider, samples, i, cursor, output).
                  Suc (length samples) - i)") auto

text \<open>The upsampling branch: each sample written \<open>multiplier\<close> times.\<close>

function repeat_sample :: "int \<Rightarrow> nat \<Rightarrow> nat \<Rightarrow> nat \<Rightarrow> buffer \<Rightarrow> stream_error + (buffer \<times> nat)" where
  "repeat_sample sample multiplier j cursor output =
     (if j < multiplier then
        (case writeInt16LE sample cursor output of
           Inl e \<Rightarrow> Inl e
         | Inr output' \<Rightarrow> repeat_sample sample multiplier (Suc j) (cursor + 2) output')
      else Inr (output, cursor))"
  by pat_completeness auto
termination
  by (relation "measure (\<lambda>(sample, multiplier, j, cursor, output). multiplier - j)") auto

function upsample_loop :: "nat \<Rightarrow> buffer \<Rightarrow> nat \<Rightarrow> nat \<Rightarrow> buffer \<Rightarrow> stream_error + buffer" where
  "upsample_loop multiplier samples i cursor output =
     (if i < length samples then
        (case readInt16LE samples i of
           Inl e \<Rightarrow> Inl e
         | Inr sample \<Rightarrow>
             (case repeat_sample sample multiplier 0 cursor output of
                Inl e \<Rightarrow> Inl e
              | Inr (output', cursor') \<Rightarrow>
                  upsample_loop multiplier samples (i + 2) cursor' output'))
      else Inr output)"
  by pat_completeness auto
termination
  by (relation "measure (\<lambda>(multiplier, samples, i, cursor, output). length samples - i)") auto

text \<open>
  \<^verbatim>\<open>resample(samples, inputRate, outputRate)\<close>: the output and the carry
  (\<^verbatim>\<open>null\<close> outside the downsampling branch). Rates are the doubles that are
  non-negative integers. The divider and the multiplier are the quotient of the rates
  as a double, and \<^verbatim>\<open>resample\<close> throws unless that double is an integer
  (\<open>integer_quotient\<close>). A rate 0 makes the quotient \<^verbatim>\<open>Infinity\<close>, which passes
  the test: with output rate 0 the loop never runs and every sample is carried, with
  input rate 0 the size of the output buffer is no number and \<^verbatim>\<open>Buffer.alloc\<close>
  throws.
\<close>

definition resample ::
  "real \<Rightarrow> buffer \<Rightarrow> nat \<Rightarrow> nat \<Rightarrow> stream_error + (buffer \<times> buffer option)" where
  "resample speakerGain samples inputRate outputRate =
     (if inputRate > outputRate then
        (if outputRate = 0 then Inr ([], Some samples)
         else
           (case integer_quotient inputRate outputRate of
              None \<Rightarrow> Inl CannotEvenlyResample
            | Some divider \<Rightarrow>
                (let increment = divider * 2;
                     output = replicate (2 * (length samples div increment)) 0
                 in case downsample_loop speakerGain divider samples 0 0 output of
                      Inl e \<Rightarrow> Inl e
                    | Inr (output', i) \<Rightarrow> Inr (output', Some (drop i samples)))))
      else if inputRate < outputRate then
        (if inputRate = 0 then Inl RangeError
         else
           (case integer_quotient outputRate inputRate of
              None \<Rightarrow> Inl CannotEvenlyResample
            | Some multiplier \<Rightarrow>
                (let output = replicate (length samples * multiplier) 0
                 in case upsample_loop multiplier samples 0 0 output of
                      Inl e \<Rightarrow> Inl e
                    | Inr output' \<Rightarrow> Inr (output', None))))
      else Inr (samples, None))"

subsection \<open>\<^verbatim>\<open>audioDataInput\<close> and the stop request\<close>

text \<open>
  The fields of the stream that the pipeline reads and writes. \<open>outgoingSampleRate\<close>
  is the transcoder's property of that name; \<open>talkData\<close> lists the frames passed to
  \<^verbatim>\<open>foscamStream.sendTalkData\<close>, in order.
\<close>

record stream =
  speakerEnabled :: bool
  speakerGain :: real
  talkStreamSetup :: bool
  outgoingSampleRate :: nat
  audioBuffer :: "buffer option"
  audioOutputBuffer :: "buffer option"
  talkData :: "buffer list"

text \<open>
  \<^verbatim>\<open>audioDataInput(samples)\<close>: the exception thrown, if any, and the stream after the
  call. An exception of \<^verbatim>\<open>resample\<close> leaves the call before any field is assigned.
\<close>

definition audioDataInput :: "buffer \<Rightarrow> stream \<Rightarrow> stream_error option \<times> stream" where
  "audioDataInput samples s =
     (if \<not> talkStreamSetup s then (None, s)
      else
        (let samples' = (case audioBuffer s of
                           None \<Rightarrow> samples
                         | Some b \<Rightarrow> if length b > 0 then b @ samples else samples)
         in case resample (speakerGain s) samples' (outgoingSampleRate s) 8000 of
              Inl e \<Rightarrow> (Some e, s)
            | Inr (resampled, carry) \<Rightarrow>
                (let s1 = s\<lparr>audioBuffer := carry\<rparr>;
                     output = (case audioOutputBuffer s1 of
                                 None \<Rightarrow> resampled
                               | Some b \<Rightarrow> b @ resampled);
                     s2 = s1\<lparr>audioOutputBuffer := Some output\<rparr>
                 in if length output < 960 then (None, s2)
                    else
                      (let current = take 960 output;
                           s3 = (if length output > 960
                                 then s2\<lparr>audioOutputBuffer := Some (drop 960 output)\<rparr>
                                 else s2\<lparr>audioOutputBuffer := None\<rparr>)
                       in (None, s3\<lparr>talkData := talkData s3 @ [current]\<rparr>)))))"

text \<open>
  The \<^verbatim>\<open>'stop'\<close> branch of \<^verbatim>\<open>handleStreamRequest\<close>, on the fields of the pipeline:
  with the speaker enabled both buffers are dropped and the talk stream is marked as
  not set up. Nothing is sent.
\<close>

definition handleStreamRequest_stop :: "stream \<Rightarrow> stream" where
  "handleStreamRequest_stop s =
     (if speakerEnabled s then
        s\<lparr>audioBuffer := None, audioOutputBuffer := None, talkStreamSetup := False\<rparr>
      else s)"

section \<open>Notions used in the statements\<close>

text \<open>
  16-bit little-endian PCM: the two bytes of a sample, and the bytes of a list of
  samples.
\<close>

definition int16le :: "int \<Rightarrow> buffer" where
  "int16le v = [word_of_int v, word_of_int (v div 2 ^ 8)]"

definition pcm_bytes :: "int list \<Rightarrow> buffer" where
  "pcm_bytes vs = concat (map int16le vs)"



text \<open>
  The downsampled bytes of a buffer as a function of the buffer alone: one sample for
  each full window of \<open>divider\<close> samples, from the front. The loop of \<^verbatim>\<open>resample\<close> is
  shown below to write exactly these bytes.
\<close>

function window_bytes :: "real \<Rightarrow> nat \<Rightarrow> buffer \<Rightarrow> buffer" where
  "window_bytes gain divider xs =
     (if 0 < divider \<and> divider * 2 \<le> length xs then
        (case sum_samples xs 0 divider 0 0 of
           Inl e \<Rightarrow> []
         | Inr acc \<Rightarrow> int16le (clip (js_round (real_of_int acc / real divider * gain))))
        @ window_bytes gain divider (drop (divider * 2) xs)
      else [])"
  by pat_completeness auto
termination
  by (relation "measure (\<lambda>(gain, divider, xs). length xs)") auto

text \<open>
  The bytes waiting in \<^verbatim>\<open>audioOutputBuffer\<close> (none when it is \<^verbatim>\<open>null\<close>), the samples
  a call hands to \<^verbatim>\<open>resample\<close> (the carry first), and everything the pipeline has
  put out so far: the frames sent, then the bytes still waiting.
\<close>

definition buffered :: "stream \<Rightarrow> buffer" where
  "buffered s = (case audioOutputBuffer s of None \<Rightarrow> [] | Some b \<Rightarrow> b)"

definition carried :: "stream \<Rightarrow> buffer" where
  "carried s = (case audioBuffer s of None \<Rightarrow> [] | Some b \<Rightarrow> b)"

definition produced :: "stream \<Rightarrow> buffer" where
  "produced s = concat (talkData s) @ buffered s"

text \<open>
  The client as the constructor leaves it, with its first connection in flight; an
  authenticator that accepts every challenge and one that fails on every challenge; a
  connected client with one DESCRIBE request pending under sequence number 1, and one
  with a SETUP request pending under it.
\<close>

definition new_client :: "(js_string \<Rightarrow> authenticator) \<Rightarrow> client" where
  "new_client auth =
     reconnect
       \<lparr>authenticate = auth, authenticator = None, requests = [], cseq = 1, session = None,
        keepAliveInterval = None, pendingReconnect = False, promises = Map.empty,
        written = [], intervals = [], intervalSeq = 0, connections = 0\<rparr>"

definition accepting_auth :: "js_string \<Rightarrow> authenticator" where
  "accepting_auth challenge = Authenticator None (\<lambda>m u. js ''Digest username=admin'')"

definition failing_auth :: "js_string \<Rightarrow> authenticator" where
  "failing_auth challenge = Authenticator (Some (js ''Unsupported scheme'')) (\<lambda>m u. [])"

definition describe_options :: request_options where
  "describe_options =
     \<lparr>req_method = js ''DESCRIBE'', uri = js ''rtsp://camera/videoMain'',
      headers = Map.empty\<rparr>"

definition describing_client :: "(js_string \<Rightarrow> authenticator) \<Rightarrow> client" where
  "describing_client auth = snd (makeRequest describe_options (connected (new_client auth)))"

definition setting_up_client :: "(js_string \<Rightarrow> authenticator) \<Rightarrow> client" where
  "setting_up_client auth =
     snd (setup_request (js ''rtsp://camera/videoMain/track1'') 5000 5001
            (connected (new_client auth)))"

text \<open>A response with the given status and headers and no body.\<close>

definition response_of :: "nat \<Rightarrow> (string \<times> js_string) list \<Rightarrow> response" where
  "response_of status hs = \<lparr>statusCode = status, rheaders = map_of hs, body = []\<rparr>"

text \<open>
  The state of a client is well formed when every pending request was numbered by
  \<^verbatim>\<open>makeRequest\<close> (its key is below the counter), is listed once, and has a pending
  promise. The constructor establishes this and every call keeps it.
\<close>

definition wf_client :: "client \<Rightarrow> bool" where
  "wf_client s =
     (distinct (map fst (requests s))
      \<and> list_all (\<lambda>(k, r). k < cseq s \<and> promises s k = Some Pending) (requests s))"

text \<open>
  What a transport string says, in the words of the specification, without the loop of
  \<^verbatim>\<open>setup\<close>. The string is a list of tokens separated by semicolons. A token
  \<^verbatim>\<open>key=value\<close> has its key before its first \<^verbatim>\<open>=\<close> and its value between that and
  the next \<^verbatim>\<open>=\<close> or the end; any other token is bare. The value of a key is that of
  the last token with the key. The ports are read off the value of \<^verbatim>\<open>server_port\<close>:
  the RTP port before its first \<^verbatim>\<open>-\<close>, the RTCP port between that and the next
  \<^verbatim>\<open>-\<close> or the end, and the RTP port again when the value has no \<^verbatim>\<open>-\<close>. A port is
  usable when it is neither \<^verbatim>\<open>NaN\<close> nor 0.
\<close>

definition before :: "'a \<Rightarrow> 'a list \<Rightarrow> 'a list" where
  "before sep v = takeWhile (\<lambda>x. x \<noteq> sep) v"

definition after :: "'a \<Rightarrow> 'a list \<Rightarrow> 'a list" where
  "after sep v = drop 1 (dropWhile (\<lambda>x. x \<noteq> sep) v)"

definition spec_token_value :: "js_string \<Rightarrow> js_string \<Rightarrow> js_string option" where
  "spec_token_value key token =
     (if of_char CHR ''='' \<in> set token \<and> before (of_char CHR ''='') token = key
      then Some (before (of_char CHR ''='') (after (of_char CHR ''='') token))
      else None)"

definition spec_value :: "js_string \<Rightarrow> js_string \<Rightarrow> js_string option" where
  "spec_value key transport =
     (case List.map_filter (spec_token_value key) (js_split (of_char CHR '';'') transport) of
        [] \<Rightarrow> None
      | v # vs \<Rightarrow> Some (last (v # vs)))"

definition spec_port_pair :: "js_string \<Rightarrow> number \<times> number" where
  "spec_port_pair val =
     (parseInt (before (of_char CHR ''-'') val),
      if of_char CHR ''-'' \<in> set val
      then parseInt (before (of_char CHR ''-'') (after (of_char CHR ''-'') val))
      else parseInt (before (of_char CHR ''-'') val))"

definition spec_ports :: "js_string \<Rightarrow> (number \<times> number) option" where
  "spec_ports transport = map_option spec_port_pair (spec_value (js ''server_port'') transport)"

definition spec_determined :: "js_string \<Rightarrow> bool" where
  "spec_determined transport =
     (truthy_string (spec_value (js ''source'') transport)
      \<and> truthy_number (map_option fst (spec_ports transport))
      \<and> truthy_number (map_option snd (spec_ports transport)))"

text \<open>
  For the examples: a transport string with a no-break space (U+00A0) before the
  port; address tests that accept 192.0.2.5 and nothing else, a resolver
  that fails and one that finds no address, and a setup result with status 200 and the
  given \<^verbatim>\<open>transport\<close> header (without the header when none is given).
\<close>

definition nbsp_transport :: js_string where
  "nbsp_transport = js ''server_port='' @ [160] @ js ''6970;source=192.0.2.5''"

definition example_isV4Format :: "js_string \<Rightarrow> bool" where
  "example_isV4Format host = (host = js ''192.0.2.5'')"

definition example_isV6Format :: "js_string \<Rightarrow> bool" where
  "example_isV6Format host = False"

definition failing_dns :: "js_string \<Rightarrow> js_string + js_string list" where
  "failing_dns host = Inl (js ''ENOTFOUND'')"

definition empty_dns :: "js_string \<Rightarrow> js_string + js_string list" where
  "empty_dns host = Inr []"

definition setup_result :: "js_string option \<Rightarrow> result" where
  "setup_result transport =
     \<lparr>response = \<lparr>statusCode = 200,
                    rheaders = (case transport of
                                  None \<Rightarrow> Map.empty
                                | Some t \<Rightarrow> [''transport'' \<mapsto> t]),
                    body = []\<rparr>,
      data = []\<rparr>"

text \<open>A stream whose talk stream is set up, with gain 1 and empty buffers, at a given rate.\<close>

definition talk_stream :: "nat \<Rightarrow> stream" where
  "talk_stream rate =
     \<lparr>speakerEnabled = True, speakerGain = 1, talkStreamSetup = True,
      outgoingSampleRate = rate, audioBuffer = None, audioOutputBuffer = None,
      talkData = []\<rparr>"

section \<open>The quotient of two rates\<close>

text \<open>
  The recursive equations of the loops and of \<open>bitlen\<close> are unfolded by hand, one
  step at a time.
\<close>

declare sum_samples.simps [simp del] downsample_loop.simps [simp del]
  repeat_sample.simps [simp del] upsample_loop.simps [simp del]
  window_bytes.simps [simp del] observe.simps [simp del] toString_nat.simps [simp del]
  bitlen.simps [simp del]

text \<open>
  Below \<open>2 ^ 53\<close> every integer is a double, and the quotient of two of them, rounded
  to a double, is an integer only where the division is exact.
\<close>

lemma bitlen_le_iff: "bitlen n \<le> k \<longleftrightarrow> n < 2 ^ k"
proof (induction n arbitrary: k rule: bitlen.induct)
  case (1 n)
  show ?case
  proof (cases "n = 0")
    case True
    then show ?thesis by (simp add: bitlen.simps)
  next
    case False
    show ?thesis
    proof (cases k)
      case 0
      then show ?thesis using False by (simp add: bitlen.simps)
    next
      case (Suc k')
      have "bitlen (n div 2) \<le> k' \<longleftrightarrow> n div 2 < 2 ^ k'"
        using 1 [OF False] .
      moreover have "n div 2 < 2 ^ k' \<longleftrightarrow> n < 2 * 2 ^ k'"
        by (simp add: less_mult_imp_div_less div_less_iff_less_mult mult.commute)
      ultimately show ?thesis
        using False Suc by (subst bitlen.simps) simp
    qed
  qed
qed

lemma bitlen_pos: "0 < n \<Longrightarrow> 0 < bitlen n"
  by (subst bitlen.simps) simp

lemma bitlen_lower:
  assumes "0 < n"
  shows "2 ^ (bitlen n - 1) \<le> n"
proof (rule leI, rule notI)
  assume "n < 2 ^ (bitlen n - 1)"
  then have "bitlen n \<le> bitlen n - 1"
    by (rule bitlen_le_iff [THEN iffD2])
  then show False
    using bitlen_pos [OF assms] by arith
qed

lemma round_half_even_near:
  assumes "0 < y"
  shows "(round_half_even x y * y \<le> x \<and> 2 * (x - round_half_even x y * y) \<le> y)
       \<or> (x \<le> round_half_even x y * y \<and> 2 * (round_half_even x y * y - x) \<le> y)"
proof -
  define q where "q = x div y"
  define r where "r = x mod y"
  have x: "x = q * y + r" and r: "r < y"
    using assms by (simp_all add: q_def r_def)
  show ?thesis
  proof (cases "y < 2 * r \<or> (2 * r = y \<and> odd q)")
    case True
    then have m: "round_half_even x y = q + 1"
      by (simp add: round_half_even_def q_def r_def Let_def)
    have "(q + 1) * y - x = y - r" using x r by (simp add: algebra_simps)
    moreover have "x \<le> (q + 1) * y" using x r by (simp add: algebra_simps)
    moreover have "2 * (y - r) \<le> y" using True r by auto
    ultimately show ?thesis using m by simp
  next
    case False
    then have m: "round_half_even x y = q"
      by (simp add: round_half_even_def q_def r_def Let_def)
    have "x - q * y = r" using x by simp
    moreover have "q * y \<le> x" using x by simp
    moreover have "2 * r \<le> y" using False by auto
    ultimately show ?thesis using m by simp
  qed
qed

lemma round_half_even_exact: "0 < y \<Longrightarrow> round_half_even (k * y) y = k"
  by (simp add: round_half_even_def)

lemma integer_quotient_dvd: "b dvd a \<Longrightarrow> integer_quotient a b = Some (a div b)"
  by (simp add: integer_quotient_def)

lemma double_quotient_exact:
  assumes "b dvd a" and "0 < b" and "a < 2 ^ 53"
  shows "double_quotient a b
           = (a div b * 2 ^ (53 - bitlen (a div b)), 53 - bitlen (a div b))"
proof -
  have "a div b < 2 ^ 53"
    using div_le_dividend [of a b] assms(3) by (rule le_less_trans)
  then have n: "bitlen (a div b) \<le> 53" by (simp add: bitlen_le_iff)
  have e: "a * 2 ^ (53 - bitlen (a div b)) = (a div b * 2 ^ (53 - bitlen (a div b))) * b"
    using assms(1) by (simp add: algebra_simps)
  have "round_half_even (a * 2 ^ (53 - bitlen (a div b))) b
               = a div b * 2 ^ (53 - bitlen (a div b))"
    by (simp only: e round_half_even_exact [OF assms(2)])
  then show ?thesis using n by (simp add: double_quotient_def Let_def)
qed

lemma integer_quotient_uneven:
  assumes "\<not> b dvd a" and "0 < b" and "b < a" and "a < 2 ^ 53"
  shows "integer_quotient a b = None"
proof -
  define n where "n = bitlen (a div b)"
  define s where "s = 53 - n"
  define m where "m = round_half_even (a * 2 ^ s) b"
  have q: "0 < a div b" using assms(2,3) by (simp add: div_greater_zero_iff)
  have "a div b < 2 ^ 53"
    using div_le_dividend [of a b] assms(4) by (rule le_less_trans)
  then have n: "n \<le> 53" by (simp add: n_def bitlen_le_iff)
  have n0: "0 < n" using q by (simp add: n_def bitlen_pos)
  have lo: "2 ^ (n - 1) \<le> a div b" unfolding n_def using q by (rule bitlen_lower)
  have dq: "double_quotient a b = (m, s)"
    using n by (simp add: double_quotient_def Let_def n_def [symmetric] s_def m_def)
  have "\<not> 2 ^ s dvd m"
  proof
    assume "2 ^ s dvd m"
    then obtain k where k: "m = k * 2 ^ s" by (auto simp add: dvd_def mult.commute)
    have ne: "k * b \<noteq> a" using assms(1) by (auto simp add: dvd_def mult.commute)
    have big: "2 * 2 ^ s \<le> b"
    proof -
      from round_half_even_near [OF assms(2), of "a * 2 ^ s"]
      consider (down) "k * 2 ^ s * b \<le> a * 2 ^ s" "2 * (a * 2 ^ s - k * 2 ^ s * b) \<le> b"
        | (up) "a * 2 ^ s \<le> k * 2 ^ s * b" "2 * (k * 2 ^ s * b - a * 2 ^ s) \<le> b"
        unfolding m_def [symmetric] k by blast
      then show ?thesis
      proof cases
        case down
        have "k * b \<le> a" using down(1) by (simp add: mult.commute mult.left_commute)
        then have "1 \<le> a - k * b" using ne by simp
        then have "2 ^ s * 1 \<le> 2 ^ s * (a - k * b)" by (intro mult_le_mono2)
        moreover have "2 ^ s * (a - k * b) = a * 2 ^ s - k * 2 ^ s * b"
          by (simp add: algebra_simps)
        ultimately show ?thesis using down(2) by simp
      next
        case up
        have "a \<le> k * b" using up(1) by (simp add: mult.commute mult.left_commute)
        then have "1 \<le> k * b - a" using ne by simp
        then have "2 ^ s * 1 \<le> 2 ^ s * (k * b - a)" by (intro mult_le_mono2)
        moreover have "2 ^ s * (k * b - a) = k * 2 ^ s * b - a * 2 ^ s"
          by (simp add: algebra_simps)
        ultimately show ?thesis using up(2) by simp
      qed
    qed
    have "(2 :: nat) ^ 53 = 2 * 2 ^ s * 2 ^ (n - 1)"
    proof -
      have "53 = Suc s + (n - 1)" using n n0 by (simp add: s_def)
      then have "(2 :: nat) ^ 53 = 2 ^ (Suc s + (n - 1))" by simp
      then show ?thesis by (simp only: power_add power_Suc)
    qed
    also have "\<dots> \<le> b * (a div b)"
      using big lo by (intro mult_le_mono)
    also have "\<dots> \<le> a" by simp
    finally show False using assms(4) by simp
  qed
  then show ?thesis
    using assms(1) dq by (simp add: integer_quotient_def)
qed

section \<open>The loops of \<^verbatim>\<open>resample\<close>\<close>

lemma readInt16LE_shift:
  "readInt16LE (a # b # rest) (Suc (Suc off)) = readInt16LE rest off"
  by (simp add: readInt16LE_def)

lemma readInt16LE_drop:
  "i + off + 1 < length xs \<Longrightarrow> readInt16LE (drop i xs) off = readInt16LE xs (i + off)"
  by (auto simp add: readInt16LE_def add.assoc)

lemma readInt16LE_take:
  "off + 1 < n \<Longrightarrow> readInt16LE (take n xs) off = readInt16LE xs off"
  by (auto simp add: readInt16LE_def)

lemma readInt16LE_ok:
  "off + 1 < length xs \<Longrightarrow> \<exists>v. readInt16LE xs off = Inr v"
  by (simp add: readInt16LE_def Let_def)

lemma clip_range: "- 32767 \<le> clip v \<and> clip v \<le> 32767"
  by (simp add: clip_def)

lemma sum_samples_ok:
  "i + divider * 2 \<le> length samples \<Longrightarrow> \<exists>v. sum_samples samples i divider j acc = Inr v"
proof (induction samples i divider j acc rule: sum_samples.induct)
  case (1 samples i divider j acc)
  show ?case
  proof (cases "j < divider")
    case True
    then have "i + j * 2 + 1 < length samples" using 1(2) by simp
    then obtain v where v: "readInt16LE samples (i + j * 2) = Inr v"
      using readInt16LE_ok by blast
    from 1(1) [OF True v 1(2)] obtain w
      where "sum_samples samples i divider (Suc j) (acc + v) = Inr w" ..
    then show ?thesis using True v by (subst sum_samples.simps) simp
  next
    case False
    then show ?thesis by (subst sum_samples.simps) simp
  qed
qed

lemma sum_samples_local:
  "i + divider * 2 \<le> length samples \<Longrightarrow>
   sum_samples samples i divider j acc
     = sum_samples (take (divider * 2) (drop i samples)) 0 divider j acc"
proof (induction samples i divider j acc rule: sum_samples.induct)
  case (1 samples i divider j acc)
  show ?case
  proof (cases "j < divider")
    case True
    then have r: "i + j * 2 + 1 < length samples" "j * 2 + 1 < divider * 2"
      using 1(2) by simp_all
    have e: "readInt16LE (take (divider * 2) (drop i samples)) (0 + j * 2)
               = readInt16LE samples (i + j * 2)"
      using r by (simp add: readInt16LE_take readInt16LE_drop)
    obtain v where v: "readInt16LE samples (i + j * 2) = Inr v"
      using readInt16LE_ok [OF r(1)] by blast
    have "sum_samples samples i divider (Suc j) (acc + v)
            = sum_samples (take (divider * 2) (drop i samples)) 0 divider (Suc j) (acc + v)"
      by (rule 1(1) [OF True v 1(2)])
    then show ?thesis
      using True v e
      by (subst sum_samples.simps, subst (2) sum_samples.simps) simp
  next
    case False
    then show ?thesis
      by (subst sum_samples.simps, subst (2) sum_samples.simps) simp
  qed
qed

lemma sum_samples_drop:
  assumes "i + divider * 2 \<le> length samples"
  shows "sum_samples samples i divider 0 0 = sum_samples (drop i samples) 0 divider 0 0"
proof -
  have "divider * 2 \<le> length (drop i samples)" using assms by simp
  then have "sum_samples (drop i samples) 0 divider 0 0
     = sum_samples (take (divider * 2) (drop 0 (drop i samples))) 0 divider 0 0"
    using sum_samples_local [of 0 divider "drop i samples" 0 0] by simp
  then show ?thesis using sum_samples_local [OF assms, of 0 0] by simp
qed

lemma sum_samples_append:
  assumes "divider * 2 \<le> length xs"
  shows "sum_samples (xs @ ys) 0 divider 0 0 = sum_samples xs 0 divider 0 0"
proof -
  have "sum_samples (xs @ ys) 0 divider 0 0
     = sum_samples (take (divider * 2) (drop 0 (xs @ ys))) 0 divider 0 0"
    using assms sum_samples_local [of 0 divider "xs @ ys" 0 0] by simp
  moreover have "sum_samples xs 0 divider 0 0
     = sum_samples (take (divider * 2) (drop 0 xs)) 0 divider 0 0"
    using assms sum_samples_local [of 0 divider xs 0 0] by simp
  ultimately show ?thesis using assms by simp
qed


lemma int16_arith:
  assumes "- 32768 \<le> (v::int)" "v \<le> 32767"
  shows "(if 32768 \<le> v mod 256 + (v div 256) mod 256 * 256
            then v mod 256 + (v div 256) mod 256 * 256 - 65536
            else v mod 256 + (v div 256) mod 256 * 256) = v"
proof (cases "0 \<le> v")
  case True
  have "v div 256 \<le> 32767 div 256" using assms(2) by (rule zdiv_mono1) simp
  then have d: "0 \<le> v div 256" "v div 256 < 256" using True by simp_all
  then have "(v div 256) mod 256 = v div 256" by simp
  moreover have "v mod 256 + (v div 256) * 256 = v" by simp
  ultimately show ?thesis using assms by simp
next
  case False
  have "(- 32768) div 256 \<le> v div 256" using assms(1) by (rule zdiv_mono1) simp
  then have d: "- 128 \<le> v div 256" "v div 256 < 0" using False by simp_all
  have "(v div 256 + 256) mod 256 = v div 256 + 256"
    using d by (intro mod_pos_pos_trivial) simp_all
  then have "(v div 256) mod 256 = v div 256 + 256"
    by simp
  moreover have "v mod 256 + (v div 256) * 256 = v" by simp
  ultimately show ?thesis using assms False by (simp add: algebra_simps)
qed

lemma readInt16LE_int16le:
  assumes "- 32768 \<le> v" "v \<le> 32767"
  shows "readInt16LE (int16le v @ rest) 0 = Inr v"
proof -
  have a: "uint (word_of_int v :: 8 word) = v mod 256"
    by (simp add: uint_word_of_int)
  have b: "uint (word_of_int (v div 256) :: 8 word) = (v div 256) mod 256"
    by (simp add: uint_word_of_int)
  show ?thesis
    using int16_arith [OF assms]
    by (auto simp add: readInt16LE_def int16le_def a b Let_def split: if_splits)
qed

lemma writeInt16LE_clip:
  assumes "cursor + 1 < length output"
  shows "writeInt16LE (clip v) cursor output
           = Inr (take cursor output @ int16le (clip v) @ drop (cursor + 2) output)"
proof -
  have r: "\<not> (clip v > 0x7fff \<or> clip v < - 0x8000)"
    using clip_range [of v] by simp
  have "output[cursor := a, cursor + 1 := b]
          = take cursor output @ [a, b] @ drop (cursor + 2) output" for a b
  proof -
    have "(output[cursor := a])[Suc cursor := b]
            = take (Suc cursor) (output[cursor := a]) @ b
                # drop (Suc (Suc cursor)) (output[cursor := a])"
      using assms by (intro upd_conv_take_nth_drop) simp
    moreover have "take (Suc cursor) (output[cursor := a]) = take cursor output @ [a]"
      using assms by (simp add: take_Suc_conv_app_nth)
    moreover have "drop (Suc (Suc cursor)) (output[cursor := a]) = drop (Suc (Suc cursor)) output"
      by simp
    ultimately show ?thesis by simp
  qed
  then show ?thesis using assms r by (simp add: writeInt16LE_def int16le_def)
qed


lemma length_int16le [simp]: "length (int16le v) = 2"
  by (simp add: int16le_def)

lemma downsample_loop_windows:
  "0 < d \<Longrightarrow> cursor + 2 * ((length samples - i) div (d * 2)) \<le> length out \<Longrightarrow>
   downsample_loop g d samples i cursor out
     = Inr (take cursor out @ window_bytes g d (drop i samples)
              @ drop (cursor + 2 * ((length samples - i) div (d * 2))) out,
            i + ((length samples - i) div (d * 2)) * (d * 2))"
proof (induction g d samples i cursor out rule: downsample_loop.induct)
  case (1 g d samples i cursor out)
  show ?case
  proof (cases "i + d * 2 \<le> length samples")
    case False
    then have "length samples - i < d * 2" using 1(2) by simp
    then have z: "(length samples - i) div (d * 2) = 0" by (rule div_less)
    have "\<not> d * 2 \<le> length (drop i samples)"
      using False 1(2) by auto
    then have "window_bytes g d (drop i samples) = []"
      by (subst window_bytes.simps) (simp del: length_drop)
    then show ?thesis
      using False z by (subst downsample_loop.simps) simp
  next
    case True
    define n' where "n' = (length samples - (i + d * 2)) div (d * 2)"
    have n: "(length samples - i) div (d * 2) = Suc n'"
      using True 1(2) unfolding n'_def
      by (subst le_div_geq) (simp_all add: algebra_simps)
    obtain acc where acc: "sum_samples samples i d 0 0 = Inr acc"
      using sum_samples_ok [OF True] by blast
    have acc': "sum_samples (drop i samples) 0 d 0 0 = Inr acc"
      using acc sum_samples_drop [OF True] by simp
    define v where "v = clip (js_round (real_of_int acc / real d * g))"
    define out' where
      "out' = take cursor out @ int16le v @ drop (cursor + 2) out"
    have c: "cursor + 1 < length out" using 1(3) n by simp
    have w: "writeInt16LE v cursor out = Inr out'"
      unfolding v_def out'_def using c by (rule writeInt16LE_clip)
    have len: "length out' = length out"
      using c by (simp add: out'_def)
    have cond: "0 < d \<and> i + d * 2 \<le> length samples" using True 1(2) by simp
    have b: "cursor + 2 + 2 * ((length samples - (i + d * 2)) div (d * 2)) \<le> length out'"
      using 1(3) n len by (simp add: n'_def)
    have ih: "downsample_loop g d samples (i + d * 2) (cursor + 2) out'
       = Inr (take (cursor + 2) out' @ window_bytes g d (drop (i + d * 2) samples)
                @ drop (cursor + 2 + 2 * n') out',
              i + d * 2 + n' * (d * 2))"
      using 1(1) [OF cond acc w [unfolded v_def] 1(2) b] by (simp add: n'_def)
    have t: "take (cursor + 2) out' = take cursor out @ int16le v"
      using c by (simp add: out'_def)
    have dr: "drop (cursor + 2 + 2 * n') out' = drop (cursor + 2 * Suc n') out"
      using c by (simp add: out'_def add.commute)
    have ge: "d * 2 \<le> length samples - i" using True by linarith
    have wb: "window_bytes g d (drop i samples)
                = int16le v @ window_bytes g d (drop (i + d * 2) samples)"
      using ge 1(2) acc'
      by (subst window_bytes.simps) (simp add: v_def add.commute)
    have "downsample_loop g d samples i cursor out
            = downsample_loop g d samples (i + d * 2) (cursor + 2) out'"
      using cond acc w by (subst downsample_loop.simps) (simp add: v_def)
    then show ?thesis
      using ih t dr wb n by simp
  qed
qed

lemma resample_quotient:
  assumes "outputRate < inputRate" "0 < outputRate"
    and "integer_quotient inputRate outputRate = Some d" and d: "0 < d"
  shows "resample g samples inputRate outputRate
           = Inr (window_bytes g d samples,
                  Some (drop (length samples div (d * 2) * (d * 2)) samples))"
proof -
  have "downsample_loop g d samples 0 0 (replicate (2 * (length samples div (d * 2))) 0)
          = Inr (window_bytes g d samples, length samples div (d * 2) * (d * 2))"
    using downsample_loop_windows [OF d, of 0 samples 0
            "replicate (2 * (length samples div (d * 2))) 0" g]
    by simp
  then show ?thesis
    using assms(1-3) by (simp add: resample_def Let_def)
qed


lemma resample_downsample:
  assumes "outputRate < inputRate" "0 < outputRate" "outputRate dvd inputRate"
  shows "resample g samples inputRate outputRate
           = Inr (window_bytes g (inputRate div outputRate) samples,
                  Some (drop (length samples div (inputRate div outputRate * 2)
                              * (inputRate div outputRate * 2)) samples))"
proof -
  have d: "0 < inputRate div outputRate"
    using assms by (simp add: div_greater_zero_iff)
  show ?thesis
    using assms(1,2) integer_quotient_dvd [OF assms(3)] d by (rule resample_quotient)
qed

lemma window_bytes_append:
  "0 < d \<Longrightarrow>
   window_bytes g d (xs @ ys)
     = window_bytes g d xs
         @ window_bytes g d (drop (length xs div (d * 2) * (d * 2)) xs @ ys)"
proof (induction g d xs rule: window_bytes.induct)
  case (1 g d xs)
  show ?case
  proof (cases "d * 2 \<le> length xs")
    case False
    then have "length xs div (d * 2) = 0" by simp
    moreover have "window_bytes g d xs = []"
      using False by (subst window_bytes.simps) simp
    ultimately show ?thesis by simp
  next
    case True
    have cond: "0 < d \<and> d * 2 \<le> length xs" using True 1(2) by simp
    have q: "length xs div (d * 2) = Suc ((length xs - d * 2) div (d * 2))"
      using True 1(2) by (subst le_div_geq) simp_all
    have ih: "window_bytes g d (drop (d * 2) xs @ ys)
       = window_bytes g d (drop (d * 2) xs)
           @ window_bytes g d (drop (length xs div (d * 2) * (d * 2)) xs @ ys)"
      using 1(1) [OF cond 1(2)] q by (simp add: add.commute)
    have l: "window_bytes g d (xs @ ys)
       = (case sum_samples xs 0 d 0 0 of
            Inl e \<Rightarrow> []
          | Inr acc \<Rightarrow> int16le (clip (js_round (real_of_int acc / real d * g))))
         @ window_bytes g d (drop (d * 2) xs @ ys)"
      using True 1(2) sum_samples_append [OF True, of ys]
      by (subst window_bytes.simps) simp
    have r: "window_bytes g d xs
       = (case sum_samples xs 0 d 0 0 of
            Inl e \<Rightarrow> []
          | Inr acc \<Rightarrow> int16le (clip (js_round (real_of_int acc / real d * g))))
         @ window_bytes g d (drop (d * 2) xs)"
      using True 1(2) by (subst window_bytes.simps) simp
    show ?thesis
      using l r ih by simp
  qed
qed

lemma carry_append:
  assumes "0 < w"
  shows "drop (length (drop (length xs div w * w) xs @ ys) div w * w)
              (drop (length xs div w * w) xs @ ys)
           = drop (length (xs @ ys) div w * w) (xs @ ys)"
proof -
  define m where "m = length xs div w"
  define q where "q = (length xs mod w + length ys) div w"
  define k where "k = drop (m * w) xs"
  have le: "m * w \<le> length xs" unfolding m_def by simp
  have lk: "length k = length xs mod w"
    unfolding k_def m_def by (simp add: minus_div_mult_eq_mod)
  have a: "length (k @ ys) div w = q"
    unfolding q_def using lk by simp
  have e: "length xs + length ys = m * w + (length xs mod w + length ys)"
    unfolding m_def by simp
  have "(m * w + (length xs mod w + length ys)) div w = m + q"
    unfolding q_def using assms by simp
  then have b: "length (xs @ ys) div w = m + q"
    by (simp only: length_append e)
  have c: "drop ((m + q) * w) (xs @ ys) = drop (q * w) (drop (m * w) (xs @ ys))"
    by (simp only: drop_drop add_mult_distrib add.commute)
  have d: "drop (m * w) (xs @ ys) = k @ ys"
    unfolding k_def using le by simp
  have "drop (length (k @ ys) div w * w) (k @ ys) = drop (length (xs @ ys) div w * w) (xs @ ys)"
    by (simp only: a b c d)
  then show ?thesis
    unfolding k_def m_def .
qed

lemma window_bytes_samples:
  "2 * k + 1 < length (window_bytes g d xs) \<Longrightarrow>
   \<exists>v. readInt16LE (window_bytes g d xs) (2 * k) = Inr v \<and> - 32767 \<le> v \<and> v \<le> 32767"
proof (induction g d xs arbitrary: k rule: window_bytes.induct)
  case (1 g d xs)
  show ?case
  proof (cases "0 < d \<and> d * 2 \<le> length xs")
    case False
    then have "window_bytes g d xs = []"
      by (subst window_bytes.simps) auto
    then show ?thesis using 1(2) by simp
  next
    case True
    then have "0 + d * 2 \<le> length xs" by simp
    then obtain acc where acc: "sum_samples xs 0 d 0 0 = Inr acc"
      using sum_samples_ok by blast
    define v where "v = clip (js_round (real_of_int acc / real d * g))"
    have wb: "window_bytes g d xs = int16le v @ window_bytes g d (drop (d * 2) xs)"
      using True acc by (subst window_bytes.simps) (simp add: v_def)
    have vr: "- 32767 \<le> v \<and> v \<le> 32767"
      unfolding v_def by (rule clip_range)
    show ?thesis
    proof (cases k)
      case 0
      have "readInt16LE (int16le v @ window_bytes g d (drop (d * 2) xs)) 0 = Inr v"
        using vr by (intro readInt16LE_int16le) simp_all
      then show ?thesis using 0 wb vr by simp
    next
      case (Suc k')
      have "2 * k' + 1 < length (window_bytes g d (drop (d * 2) xs))"
        using 1(2) wb Suc by simp
      from 1(1) [OF True this] obtain u where
        u: "readInt16LE (window_bytes g d (drop (d * 2) xs)) (2 * k') = Inr u"
           "- 32767 \<le> u" "u \<le> 32767" by blast
      have "readInt16LE (int16le v @ window_bytes g d (drop (d * 2) xs)) (2 * Suc k')
              = readInt16LE (window_bytes g d (drop (d * 2) xs)) (2 * k')"
        by (simp add: int16le_def readInt16LE_shift)
      then show ?thesis using u wb Suc by simp
    qed
  qed
qed

lemma resample_chunks:
  assumes "outputRate < inputRate" "0 < outputRate" "outputRate dvd inputRate"
  defines "w \<equiv> inputRate div outputRate * 2"
  shows "resample g (drop (length xs div w * w) xs @ ys) inputRate outputRate
           = Inr (window_bytes g (inputRate div outputRate) (drop (length xs div w * w) xs @ ys),
                  Some (drop (length (xs @ ys) div w * w) (xs @ ys)))"
proof -
  have "0 < inputRate div outputRate"
    using assms(1-3) by (simp add: div_greater_zero_iff)
  then have w: "0 < w" by (simp add: w_def)
  show ?thesis
    using resample_downsample [OF assms(1-3), of g "drop (length xs div w * w) xs @ ys"]
      carry_append [OF w, of xs ys]
    by (simp only: w_def)
qed






section \<open>One call of \<^verbatim>\<open>audioDataInput\<close>\<close>

lemma carry_prepended:
  "(case audioBuffer s of
      None \<Rightarrow> samples
    | Some b \<Rightarrow> if length b > 0 then b @ samples else samples) = carried s @ samples"
  by (simp add: carried_def split: option.splits)

lemma audioDataInput_inactive:
  "\<not> talkStreamSetup s \<Longrightarrow> audioDataInput samples s = (None, s)"
  by (simp add: audioDataInput_def)

lemma audioDataInput_throws:
  assumes "talkStreamSetup s"
    and "resample (speakerGain s) (carried s @ samples) (outgoingSampleRate s) 8000 = Inl e"
  shows "audioDataInput samples s = (Some e, s)"
  using assms by (simp add: audioDataInput_def carry_prepended)

lemma audioDataInput_short:
  assumes "talkStreamSetup s"
    and "resample (speakerGain s) (carried s @ samples) (outgoingSampleRate s) 8000
           = Inr (resampled, carry)"
    and "length (buffered s @ resampled) < 960"
  shows "audioDataInput samples s
           = (None, s\<lparr>audioBuffer := carry,
                       audioOutputBuffer := Some (buffered s @ resampled)\<rparr>)"
  using assms
  by (simp add: audioDataInput_def carry_prepended buffered_def Let_def split: option.splits)

lemma audioDataInput_frame:
  assumes "talkStreamSetup s"
    and "resample (speakerGain s) (carried s @ samples) (outgoingSampleRate s) 8000
           = Inr (resampled, carry)"
    and "960 \<le> length (buffered s @ resampled)"
  shows "audioDataInput samples s
           = (None, s\<lparr>audioBuffer := carry,
                       audioOutputBuffer :=
                         (if length (buffered s @ resampled) > 960
                          then Some (drop 960 (buffered s @ resampled)) else None),
                       talkData := talkData s @ [take 960 (buffered s @ resampled)]\<rparr>)"
  using assms
  by (simp add: audioDataInput_def carry_prepended buffered_def Let_def split: option.splits)

lemma audioDataInput_produced:
  assumes "talkStreamSetup s"
    and "resample (speakerGain s) (carried s @ samples) (outgoingSampleRate s) 8000
           = Inr (resampled, carry)"
  shows "fst (audioDataInput samples s) = None
       \<and> produced (snd (audioDataInput samples s)) = produced s @ resampled
       \<and> audioBuffer (snd (audioDataInput samples s)) = carry
       \<and> talkStreamSetup (snd (audioDataInput samples s))
       \<and> speakerGain (snd (audioDataInput samples s)) = speakerGain s
       \<and> outgoingSampleRate (snd (audioDataInput samples s)) = outgoingSampleRate s"
proof (cases "length (buffered s @ resampled) < 960")
  case True
  show ?thesis
    using assms(1) by (simp add: audioDataInput_short [OF assms True] produced_def buffered_def)
next
  case False
  then have ge: "960 \<le> length (buffered s @ resampled)" by simp
  have "take 960 (buffered s @ resampled) @ drop 960 (buffered s @ resampled)
          = buffered s @ resampled"
    by (rule append_take_drop_id)
  moreover have "length (buffered s @ resampled) \<le> 960 \<Longrightarrow>
     take 960 (buffered s @ resampled) = buffered s @ resampled"
    by (rule take_all)
  ultimately show ?thesis
    using assms(1)
    by (simp add: audioDataInput_frame [OF assms ge] produced_def buffered_def
          del: append_take_drop_id take_append drop_append)
qed

section \<open>The calls of the client, field by field\<close>

lemma reject_fields [simp]:
  "requests (reject k e s) = requests s" "cseq (reject k e s) = cseq s"
  "session (reject k e s) = session s" "written (reject k e s) = written s"
  "pendingReconnect (reject k e s) = pendingReconnect s"
  "connections (reject k e s) = connections s"
  "authenticator (reject k e s) = authenticator s"
  "authenticate (reject k e s) = authenticate s"
  by (simp_all add: reject_def settle_def split: option.splits promise.splits)

lemma reject_promises:
  "promises (reject k e s) k' =
     (if k' = k \<and> promises s k = Some Pending then Some (Rejected e) else promises s k')"
  by (simp add: reject_def settle_def split: option.splits promise.splits)

lemma reject_request_requests:
  "requests (reject_request e x s) = filter (\<lambda>(k, r). k \<noteq> fst x) (requests s)"
  by (cases x) (auto simp add: reject_request_def Let_def AList.delete_eq intro: filter_cong)

lemma reject_request_promises:
  "promises (reject_request e x s) k =
     (if k = fst x \<and> promises s k = Some Pending then Some (Rejected e) else promises s k)"
  by (cases x) (auto simp add: reject_request_def Let_def reject_promises)

lemma reject_request_fields [simp]:
  "cseq (reject_request e x s) = cseq s" "session (reject_request e x s) = session s"
  "written (reject_request e x s) = written s"
  "pendingReconnect (reject_request e x s) = pendingReconnect s"
  "connections (reject_request e x s) = connections s"
  by (cases x; simp add: reject_request_def Let_def)+

lemma fold_reject_request_requests:
  "requests (fold (reject_request e) xs s)
     = filter (\<lambda>(k, r). k \<notin> fst ` set xs) (requests s)"
proof (induction xs arbitrary: s)
  case Nil
  then show ?case by simp
next
  case (Cons x xs)
  have "filter (\<lambda>(k, r). k \<notin> fst ` set xs) (filter (\<lambda>(k, r). k \<noteq> fst x) (requests s))
          = filter (\<lambda>(k, r). k \<notin> fst ` set (x # xs)) (requests s)"
    by (auto intro: filter_cong)
  then show ?case
    by (simp add: Cons reject_request_requests del: filter_filter)
qed

lemma fold_reject_request_promises:
  "promises (fold (reject_request e) xs s) k
     = (if k \<in> fst ` set xs \<and> promises s k = Some Pending
        then Some (Rejected e) else promises s k)"
proof (induction xs arbitrary: s)
  case Nil
  then show ?case by simp
next
  case (Cons x xs)
  show ?case
    by (auto simp add: Cons reject_request_promises)
qed

lemma fold_reject_request_fields [simp]:
  "cseq (fold (reject_request e) xs s) = cseq s"
  "session (fold (reject_request e) xs s) = session s"
  "written (fold (reject_request e) xs s) = written s"
  "pendingReconnect (fold (reject_request e) xs s) = pendingReconnect s"
  "connections (fold (reject_request e) xs s) = connections s"
  by (induction xs arbitrary: s; simp)+

lemma reconnect_fields [simp]:
  "requests (reconnect s) = requests s" "promises (reconnect s) = promises s"
  "cseq (reconnect s) = cseq s" "session (reconnect s) = session s"
  "written (reconnect s) = written s" "pendingReconnect (reconnect s)"
  by (simp_all add: reconnect_def)

lemma settle_fields [simp]:
  "requests (settle k p s) = requests s" "cseq (settle k p s) = cseq s"
  "session (settle k p s) = session s" "written (settle k p s) = written s"
  "authenticator (settle k p s) = authenticator s"
  "authenticate (settle k p s) = authenticate s"
  by (simp_all add: settle_def split: option.splits promise.splits)

lemma settle_promises:
  "promises (settle k p s) k' =
     (if k' = k \<and> promises s k = Some Pending then Some p else promises s k')"
  by (simp add: settle_def split: option.splits promise.splits)

lemma resolve_fields [simp]:
  "requests (resolve k v s) = requests s" "cseq (resolve k v s) = cseq s"
  "session (resolve k v s) = session s" "written (resolve k v s) = written s"
  "authenticator (resolve k v s) = authenticator s"
  "authenticate (resolve k v s) = authenticate s"
  by (simp_all add: resolve_def)

lemma resolve_promises:
  "promises (resolve k v s) k' =
     (if k' = k \<and> promises s k = Some Pending then Some (Fulfilled v) else promises s k')"
  by (simp add: resolve_def settle_promises)

lemma newSession_fields [simp]:
  "requests (newSession v s) = requests s" "cseq (newSession v s) = cseq s"
  "session (newSession v s) = Some v" "written (newSession v s) = written s"
  "authenticator (newSession v s) = authenticator s"
  "authenticate (newSession v s) = authenticate s"
  "promises (newSession v s) = promises s"
  by (simp_all add: newSession_def clearInterval_def Let_def split: option.splits)

lemma makeRequest_fields [simp]:
  "fst (makeRequest options s) = cseq s"
  "cseq (snd (makeRequest options s)) = cseq s + 1"
  "session (snd (makeRequest options s)) = session s"
  "authenticator (snd (makeRequest options s)) = authenticator s"
  "authenticate (snd (makeRequest options s)) = authenticate s"
  "promises (snd (makeRequest options s)) = (promises s)(cseq s \<mapsto> Pending)"
  by (simp_all add: makeRequest_def Let_def)

lemma makeRequest_written:
  "\<exists>options'. written (snd (makeRequest options s)) = written s @ [options']
     \<and> requests (snd (makeRequest options s)) = AList.update (cseq s) options' (requests s)
     \<and> req_method options' = req_method options \<and> uri options' = uri options
     \<and> headers options' ''CSeq'' = Some (HNumber (cseq s))
     \<and> (case authenticator s of
           None \<Rightarrow> headers options' ''Authorization'' = headers options ''Authorization''
         | Some a \<Rightarrow> headers options' ''Authorization''
                      = Some (HString (authorize a (req_method options) (uri options))))
     \<and> headers options' ''Session''
          = (if truthy_string (session s) \<and> \<not> truthy_header (headers options ''Session'')
             then map_option HString (session s) else headers options ''Session'')
     \<and> (\<forall>name. name \<noteq> ''CSeq'' \<and> name \<noteq> ''Authorization'' \<and> name \<noteq> ''Session''
            \<longrightarrow> headers options' name = headers options name)"
  by (auto simp add: makeRequest_def Let_def truthy_string_def split: option.splits)

lemma js_split_first:
  "\<exists>ps. js_split sep v = takeWhile (\<lambda>x. x \<noteq> sep) v # ps"
  by (induction v) (auto split: list.splits)

lemma onResponse_matched:
  assumes "parseInt_header (rheaders rsp ''cseq'') = Num (int c)"
    and "map_of (requests s) c = Some requestOptions"
  shows "\<exists>s1. onResponse rsp s = done_response c requestOptions rsp s1
           \<and> requests s1 = requests s \<and> promises s1 = promises s \<and> cseq s1 = cseq s
           \<and> written s1 = written s \<and> authenticate s1 = authenticate s
           \<and> authenticator s1 = authenticator s
           \<and> session s1 =
                (case rheaders rsp ''session'' of
                   None \<Rightarrow> session s
                 | Some v \<Rightarrow> if v = [] then session s
                            else Some (takeWhile (\<lambda>x. x \<noteq> of_char CHR '';'') v))"
proof (cases "truthy_string (rheaders rsp ''session'')")
  case False
  then show ?thesis
    using assms
    by (auto simp add: onResponse_def truthy_string_def split: option.splits)
next
  case True
  then obtain v where v: "rheaders rsp ''session'' = Some v" "v \<noteq> []"
    by (auto simp add: truthy_string_def split: option.splits)
  obtain ps where ps: "js_split (of_char CHR '';'') v = takeWhile (\<lambda>x. x \<noteq> of_char CHR '';'') v # ps"
    using js_split_first [of "of_char CHR '';''" v] by (elim exE)
  have "onResponse rsp s
          = done_response c requestOptions rsp
              (newSession (takeWhile (\<lambda>x. x \<noteq> of_char CHR '';'') v) s)"
    using assms v ps by (simp add: onResponse_def truthy_string_def)
  then show ?thesis
    using v by (intro exI [of _ "newSession (takeWhile (\<lambda>x. x \<noteq> of_char CHR '';'') v) s"]) simp
qed

lemma done_response_session [simp]:
  "session (done_response c requestOptions rsp s) = session s"
  by (simp add: done_response_def Let_def reject_def split_beta split: option.splits)

lemma parseInt_digit [simp]:
  "parseInt (js ''1'') = Num 1" "parseInt (js ''2'') = Num 2" "parseInt (js ''7'') = Num 7"
  by (simp_all add: parseInt_def parse_digits_def digit_value_def is_white_def js_def
        nearest_double_def bitlen.simps)

lemma describing_client_fields:
  "requests (describing_client auth)
     = [(1, describe_options\<lparr>headers := [''CSeq'' \<mapsto> HNumber 1]\<rparr>)]"
  "cseq (describing_client auth) = 2"
  "promises (describing_client auth) = [1 \<mapsto> Pending]"
  "written (describing_client auth) = [describe_options\<lparr>headers := [''CSeq'' \<mapsto> HNumber 1]\<rparr>]"
  "session (describing_client auth) = None"
  "authenticate (describing_client auth) = auth"
  "authenticator (describing_client auth) = None"
  by (simp_all add: describing_client_def new_client_def makeRequest_def describe_options_def
        reconnect_def connected_def Let_def)

lemma setting_up_client_fields:
  "requests (setting_up_client auth)
     = [(1, \<lparr>req_method = js ''SETUP'', uri = js ''rtsp://camera/videoMain/track1'',
              headers = [''Transport'' \<mapsto> HString (js ''RTP/AVP;unicast;client_port=5000-5001''),
                         ''CSeq'' \<mapsto> HNumber 1]\<rparr>)]"
  "cseq (setting_up_client auth) = 2"
  "promises (setting_up_client auth) = [1 \<mapsto> Pending]"
  "written (setting_up_client auth)
     = [\<lparr>req_method = js ''SETUP'', uri = js ''rtsp://camera/videoMain/track1'',
         headers = [''Transport'' \<mapsto> HString (js ''RTP/AVP;unicast;client_port=5000-5001''),
                    ''CSeq'' \<mapsto> HNumber 1]\<rparr>]"
  "session (setting_up_client auth) = None"
  "authenticate (setting_up_client auth) = auth"
  "authenticator (setting_up_client auth) = None"
  by (simp_all add: setting_up_client_def setup_request_def new_client_def makeRequest_def
        reconnect_def connected_def Let_def toString_nat.simps js_def)

section \<open>The transport string\<close>

text \<open>
  \<^verbatim>\<open>split\<close> in terms of the text before and after the first separator, and the loop
  of \<^verbatim>\<open>setup\<close> in terms of the last token of each key.
\<close>

lemma js_split_unfold:
  "js_split sep v
     = before sep v # (if sep \<in> set v then js_split sep (after sep v) else [])"
  by (induction v) (auto simp add: before_def after_def split: list.splits)

lemma take_2_js_split:
  "take 2 (js_split sep v)
     = (if sep \<in> set v then [before sep v, before sep (after sep v)] else [before sep v])"
proof (cases "sep \<in> set v")
  case True
  have "js_split sep v = before sep v # js_split sep (after sep v)"
    using True by (subst js_split_unfold) simp
  also have "js_split sep (after sep v)
               = before sep (after sep v)
                   # (if sep \<in> set (after sep v) then js_split sep (after sep (after sep v))
                      else [])"
    by (rule js_split_unfold)
  finally show ?thesis using True by simp
next
  case False
  then show ?thesis by (subst js_split_unfold) simp
qed

lemma key_names_differ: "js ''server_port'' \<noteq> js ''source''"
  by (simp add: js_def)

lemma setup_value_tokens:
  "setup_value v (src, rtp, rtcp)
     = (case spec_token_value (js ''source'') v of None \<Rightarrow> src | Some val \<Rightarrow> Some val,
        case spec_token_value (js ''server_port'') v of
          None \<Rightarrow> rtp | Some val \<Rightarrow> Some (fst (spec_port_pair val)),
        case spec_token_value (js ''server_port'') v of
          None \<Rightarrow> rtcp | Some val \<Rightarrow> Some (snd (spec_port_pair val)))"
  using key_names_differ
  by (auto simp add: setup_value_def spec_token_value_def spec_port_pair_def take_2_js_split)

lemma fold_setup_value_tokens:
  "fold setup_value vs (src, rtp, rtcp)
     = (case List.map_filter (spec_token_value (js ''source'')) vs of
          [] \<Rightarrow> src | x # xs \<Rightarrow> Some (last (x # xs)),
        case List.map_filter (spec_token_value (js ''server_port'')) vs of
          [] \<Rightarrow> rtp | x # xs \<Rightarrow> Some (fst (spec_port_pair (last (x # xs)))),
        case List.map_filter (spec_token_value (js ''server_port'')) vs of
          [] \<Rightarrow> rtcp | x # xs \<Rightarrow> Some (snd (spec_port_pair (last (x # xs)))))"
proof (induction vs arbitrary: src rtp rtcp)
  case Nil
  then show ?case by simp
next
  case (Cons v vs)
  show ?case
    by (simp add: setup_value_tokens Cons split: option.splits list.splits)
qed

lemma setup_transport_spec:
  "setup_transport transport
     = (spec_value (js ''source'') transport,
        map_option fst (spec_ports transport), map_option snd (spec_ports transport))"
  by (simp add: setup_transport_def fold_setup_value_tokens spec_value_def spec_ports_def
        split: list.splits)

lemma setup_then_rejects:
  assumes "rheaders (response res) ''transport'' = Some transport" and "transport \<noteq> []"
    and "setup_transport transport = (src, rtp, rtcp)"
    and "\<not> (truthy_string src \<and> truthy_number rtp \<and> truthy_number rtcp)"
  shows "setup_then isV4Format isV6Format dns_resolve res
           = Rejected (CouldNotParseTransport transport src rtp rtcp)"
  using assms by (auto simp add: setup_then_def truthy_string_def)

lemma setup_then_literal:
  assumes "rheaders (response res) ''transport'' = Some transport" and "transport \<noteq> []"
    and "setup_transport transport = (Some host, Some p, Some q)"
    and "host \<noteq> []" "truthy_number (Some p)" "truthy_number (Some q)"
    and "isV4Format host \<or> isV6Format host"
  shows "setup_then isV4Format isV6Format dns_resolve res
           = Fulfilled \<lparr>source = host, rtpPort = p, rtcpPort = q\<rparr>"
  using assms by (auto simp add: setup_then_def truthy_string_def)

lemma setup_then_unresolved:
  assumes "rheaders (response res) ''transport'' = Some transport" and "transport \<noteq> []"
    and "setup_transport transport = (Some host, Some p, Some q)"
    and "host \<noteq> []" "truthy_number (Some p)" "truthy_number (Some q)"
    and "\<not> isV4Format host" "\<not> isV6Format host"
    and "dns_resolve host = Inl e \<or> dns_resolve host = Inr []"
  shows "setup_then isV4Format isV6Format dns_resolve res = Pending"
  using assms by (auto simp add: setup_then_def truthy_string_def)

lemma setup_transport_examples:
  "setup_transport (js ''server_port=6970-6971;source=192.0.2.5'')
     = (Some (js ''192.0.2.5''), Some (Num 6970), Some (Num 6971))"
  "setup_transport (js ''server_port=6970'') = (None, Some (Num 6970), Some (Num 6970))"
  "setup_transport (js ''server_port=6970;source=192.0.2.5'')
     = (Some (js ''192.0.2.5''), Some (Num 6970), Some (Num 6970))"
  "setup_transport (js ''server_port=6970-6971;source=camera.local'')
     = (Some (js ''camera.local''), Some (Num 6970), Some (Num 6971))"
  "setup_transport (js ''RTP/AVP;unicast;source=192.0.2.5'')
     = (Some (js ''192.0.2.5''), None, None)"
  "setup_transport (js ''server_port=abc;source=192.0.2.5'')
     = (Some (js ''192.0.2.5''), Some NaN, Some NaN)"
  "setup_transport (js ''server_port=6970-;source=192.0.2.5'')
     = (Some (js ''192.0.2.5''), Some (Num 6970), Some NaN)"
  "setup_transport (js ''server_port=0;source=192.0.2.5'')
     = (Some (js ''192.0.2.5''), Some (Num 0), Some (Num 0))"
  "setup_transport nbsp_transport
     = (Some (js ''192.0.2.5''), Some (Num 6970), Some (Num 6970))"
  "setup_transport (js ''server_port=9007199254740993;source=192.0.2.5'')
     = (Some (js ''192.0.2.5''), Some (Num 9007199254740992), Some (Num 9007199254740992))"
  by (simp_all add: setup_transport_def setup_value_def parseInt_def parse_digits_def
        digit_value_def is_white_def js_def nearest_double_def bitlen.simps
        round_half_even_def nbsp_transport_def)

section \<open>Well-formed clients\<close>

lemma wf_client_iff:
  "wf_client s \<longleftrightarrow>
     distinct (map fst (requests s))
     \<and> (\<forall>k \<in> fst ` set (requests s). k < cseq s \<and> promises s k = Some Pending)"
  by (auto simp add: wf_client_def list_all_iff)

lemma wf_client_pending:
  assumes "wf_client s" and "map_of (requests s) c = Some r"
  shows "c < cseq s" and "promises s c = Some Pending"
proof -
  have "c \<in> fst ` set (requests s)"
    using assms(2) by (metis map_of_SomeD fst_conv image_eqI)
  then show "c < cseq s" and "promises s c = Some Pending"
    using assms(1) by (auto simp add: wf_client_iff)
qed

lemma wf_client_new: "wf_client (new_client auth)"
  by (simp add: wf_client_def new_client_def)

lemma wf_client_connected: "wf_client s \<Longrightarrow> wf_client (connected s)"
  by (simp add: wf_client_def connected_def)

lemma makeRequest_requests_keys:
  "fst ` set (requests (snd (makeRequest options s))) = insert (cseq s) (fst ` set (requests s))"
  "distinct (map fst (requests s)) \<Longrightarrow> distinct (map fst (requests (snd (makeRequest options s))))"
proof -
  obtain options' where
    r: "requests (snd (makeRequest options s)) = AList.update (cseq s) options' (requests s)"
    using makeRequest_written [of options s] by blast
  show "fst ` set (requests (snd (makeRequest options s)))
          = insert (cseq s) (fst ` set (requests s))"
    by (simp add: r AList.dom_update)
  show "distinct (map fst (requests (snd (makeRequest options s))))"
    if "distinct (map fst (requests s))"
    using that by (simp add: r AList.distinct_update)
qed

lemma wf_client_makeRequest:
  assumes "wf_client s"
  shows "wf_client (snd (makeRequest options s))"
  using assms
  by (auto simp add: wf_client_iff makeRequest_requests_keys)

lemma wf_client_examples:
  "wf_client (describing_client auth)" "wf_client (setting_up_client auth)"
  unfolding describing_client_def setting_up_client_def setup_request_def
  by (intro wf_client_makeRequest wf_client_connected wf_client_new)+

lemma wf_client_delete:
  assumes "wf_client s"
  shows "wf_client (s\<lparr>requests := AList.delete c (requests s)\<rparr>)"
    and "c \<notin> fst ` set (requests (s\<lparr>requests := AList.delete c (requests s)\<rparr>))"
proof -
  have sub: "fst ` set (AList.delete c (requests s)) \<subseteq> fst ` set (requests s)"
    by (rule AList.dom_delete_subset)
  have d: "distinct (map fst (AList.delete c (requests s)))"
    using assms by (simp add: wf_client_iff AList.distinct_delete)
  have b: "\<forall>k \<in> fst ` set (AList.delete c (requests s)).
             k < cseq s \<and> promises s k = Some Pending"
    using assms sub unfolding wf_client_iff by blast
  show "wf_client (s\<lparr>requests := AList.delete c (requests s)\<rparr>)"
    unfolding wf_client_iff using d b by simp
  show "c \<notin> fst ` set (requests (s\<lparr>requests := AList.delete c (requests s)\<rparr>))"
    by (simp add: AList.delete_notin_dom)
qed

lemma wf_client_settle:
  assumes "wf_client s" and "c \<notin> fst ` set (requests s)"
  shows "wf_client (settle c p s)"
  using assms by (auto simp add: wf_client_iff settle_promises)

lemma wf_client_authenticator:
  "wf_client (s\<lparr>authenticator := a\<rparr>) = wf_client s"
  by (simp add: wf_client_def)

lemma wf_client_newSession:
  "wf_client (newSession v s) = wf_client s"
  by (simp add: wf_client_def)

lemma wf_client_done_response:
  assumes "wf_client s" and "c < cseq s"
  shows "wf_client (done_response c requestOptions rsp s)"
proof -
  define s1 where "s1 = s\<lparr>requests := AList.delete c (requests s)\<rparr>"
  have w1: "wf_client s1" and n1: "c \<notin> fst ` set (requests s1)"
    using wf_client_delete [OF assms(1), of c] by (simp_all add: s1_def)
  have c1: "cseq s1 = cseq s" by (simp add: s1_def)
  have retry: "wf_client (settle c (Follows (fst (makeRequest requestOptions (s1\<lparr>authenticator := a\<rparr>))))
                  (snd (makeRequest requestOptions (s1\<lparr>authenticator := a\<rparr>))))" for a
  proof (rule wf_client_settle)
    show "wf_client (snd (makeRequest requestOptions (s1\<lparr>authenticator := a\<rparr>)))"
      using w1 by (intro wf_client_makeRequest) (simp add: wf_client_authenticator)
    show "c \<notin> fst ` set (requests (snd (makeRequest requestOptions (s1\<lparr>authenticator := a\<rparr>))))"
      using n1 assms(2) c1 by (simp add: makeRequest_requests_keys)
  qed
  have rej: "wf_client (reject c e (s1\<lparr>authenticator := a\<rparr>))" for e a
    unfolding reject_def using w1 n1
    by (intro wf_client_settle) (simp_all add: wf_client_authenticator)
  have rej1: "wf_client (reject c e s1)" for e
    unfolding reject_def using w1 n1 by (intro wf_client_settle)
  have res1: "wf_client (resolve c v s1)" for v
    unfolding resolve_def using w1 n1 by (intro wf_client_settle)
  show ?thesis
    using w1 retry rej rej1 res1
    by (simp add: done_response_def Let_def s1_def [symmetric] split_beta
          split: option.splits)
qed

lemma wf_client_onResponse:
  assumes "wf_client s"
  shows "wf_client (onResponse rsp s)"
proof (cases "parseInt_header (rheaders rsp ''cseq'')")
  case NaN
  then show ?thesis using assms by (simp add: onResponse_def)
next
  case Infinity
  then show ?thesis using assms by (simp add: onResponse_def)
next
  case NegInfinity
  then show ?thesis using assms by (simp add: onResponse_def)
next
  case (Num n)
  show ?thesis
  proof (cases "n < 0")
    case True
    then show ?thesis using assms Num by (simp add: onResponse_def)
  next
    case False
    show ?thesis
    proof (cases "map_of (requests s) (nat n)")
      case None
      then show ?thesis using assms Num False by (simp add: onResponse_def)
    next
      case (Some requestOptions)
      have p: "parseInt_header (rheaders rsp ''cseq'') = Num (int (nat n))"
        using Num False by simp
      obtain s1 where s1: "onResponse rsp s = done_response (nat n) requestOptions rsp s1"
        "requests s1 = requests s" "promises s1 = promises s" "cseq s1 = cseq s"
        using onResponse_matched [OF p Some] by blast
      have "wf_client s1" using assms s1(2-4) by (simp add: wf_client_def)
      moreover have "nat n < cseq s1"
        using wf_client_pending(1) [OF assms Some] s1(4) by simp
      ultimately show ?thesis
        unfolding s1(1) by (rule wf_client_done_response)
    qed
  qed
qed

lemma wf_client_onError:
  "wf_client (onError e s)"
proof -
  have "filter (\<lambda>(k, r). k \<notin> fst ` set (requests s)) (requests s) = []"
    by (force simp add: filter_empty_conv)
  then have "requests (onError e s) = []"
    by (simp add: onError_def fold_reject_request_requests)
  then show ?thesis by (simp add: wf_client_def)
qed

section \<open>Resampling: the worked example\<close>

text \<open>
  C6. Resampling from 16000 to 8000 with gain 1 turns the four samples
  100, 300, -100, 100 into the two samples 200, 0, the averages of the pairs, and
  leaves an empty carry. The output is read back with \<^verbatim>\<open>readInt16LE\<close>.
\<close>

theorem resample_16000_8000_example:
  "resample 1 (pcm_bytes [100, 300, - 100, 100]) 16000 8000 = Inr (pcm_bytes [200, 0], Some [])
   \<and> readInt16LE (pcm_bytes [200, 0]) 0 = Inr 200
   \<and> readInt16LE (pcm_bytes [200, 0]) 2 = Inr 0
   \<and> length (pcm_bytes [200, 0]) = 4"
proof -
  have i: "pcm_bytes [100, 300, - 100, 100] = [100, 0, 44, 1, 156, 255, 100, 0]"
    by (simp add: pcm_bytes_def int16le_def)
  have r: "pcm_bytes [200, 0] = [200, 0, 0, 0]"
    by (simp add: pcm_bytes_def int16le_def)
  have "resample 1 [100, 0, 44, 1, 156, 255, 100, 0] 16000 8000
          = Inr ([200, 0, 0, 0], Some [])"
    by (simp add: resample_downsample window_bytes.simps sum_samples.simps
          readInt16LE_def clip_def js_round_def int16le_def)
  then show ?thesis
    by (simp add: i r readInt16LE_def)
qed

section \<open>Resampling in chunks\<close>

text \<open>
  C7. At a downsampling ratio, \<^verbatim>\<open>resample\<close> on a first chunk returns as carry the
  bytes after its last full window (fewer than a window), and \<^verbatim>\<open>resample\<close> on that
  carry followed by a second chunk returns output which, appended to the first output,
  is the output of one call on both chunks together, with the same final carry. For a
  stream whose talk stream is set up, two calls of \<^verbatim>\<open>audioDataInput\<close>, which
  prepends the carry, put out the same bytes and keep the same carry as one call on the
  concatenation.
\<close>

theorem resample_carry_chunking:
  assumes "outputRate < inputRate" "0 < outputRate" "outputRate dvd inputRate"
  shows "(\<exists>out1 carry1 out2 carry2.
            resample g chunk1 inputRate outputRate = Inr (out1, Some carry1)
          \<and> carry1 = drop (length chunk1 div (inputRate div outputRate * 2)
                              * (inputRate div outputRate * 2)) chunk1
          \<and> length carry1 < inputRate div outputRate * 2
          \<and> resample g (carry1 @ chunk2) inputRate outputRate = Inr (out2, Some carry2)
          \<and> resample g (chunk1 @ chunk2) inputRate outputRate = Inr (out1 @ out2, Some carry2))
       \<and> (talkStreamSetup s \<and> outgoingSampleRate s = inputRate \<and> outputRate = 8000 \<longrightarrow>
            produced (snd (audioDataInput chunk2 (snd (audioDataInput chunk1 s))))
              = produced (snd (audioDataInput (chunk1 @ chunk2) s))
          \<and> audioBuffer (snd (audioDataInput chunk2 (snd (audioDataInput chunk1 s))))
              = audioBuffer (snd (audioDataInput (chunk1 @ chunk2) s)))"
proof -
  define d where "d = inputRate div outputRate"
  define w where "w = d * 2"
  have d: "0 < d"
    using assms unfolding d_def by (simp add: div_greater_zero_iff)
  then have w: "0 < w" by (simp add: w_def)
  have r1: "resample h xs inputRate outputRate
              = Inr (window_bytes h d xs, Some (drop (length xs div w * w) xs))" for h xs
    using resample_downsample [OF assms, of h xs] by (simp add: d_def w_def)
  have r2: "resample h (drop (length xs div w * w) xs @ ys) inputRate outputRate
              = Inr (window_bytes h d (drop (length xs div w * w) xs @ ys),
                     Some (drop (length (xs @ ys) div w * w) (xs @ ys)))" for h xs ys
    using resample_chunks [OF assms, of h xs ys] by (simp add: d_def w_def)
  have r3: "resample h (xs @ ys) inputRate outputRate
              = Inr (window_bytes h d xs @ window_bytes h d (drop (length xs div w * w) xs @ ys),
                     Some (drop (length (xs @ ys) div w * w) (xs @ ys)))" for h xs ys
    using r1 [of h "xs @ ys"] window_bytes_append [OF d, of h xs ys]
    by (simp add: w_def)
  have l1: "length (drop (length chunk1 div w * w) chunk1) < w"
    using w by (simp add: minus_div_mult_eq_mod)
  have first: "\<exists>out1 carry1 out2 carry2.
            resample g chunk1 inputRate outputRate = Inr (out1, Some carry1)
          \<and> carry1 = drop (length chunk1 div w * w) chunk1
          \<and> length carry1 < w
          \<and> resample g (carry1 @ chunk2) inputRate outputRate = Inr (out2, Some carry2)
          \<and> resample g (chunk1 @ chunk2) inputRate outputRate = Inr (out1 @ out2, Some carry2)"
    using r1 [of g chunk1] l1 r2 [of g chunk1 chunk2] r3 [of g chunk1 chunk2] by blast
  have second: "produced (snd (audioDataInput chunk2 (snd (audioDataInput chunk1 s))))
              = produced (snd (audioDataInput (chunk1 @ chunk2) s))
          \<and> audioBuffer (snd (audioDataInput chunk2 (snd (audioDataInput chunk1 s))))
              = audioBuffer (snd (audioDataInput (chunk1 @ chunk2) s))"
    if a: "talkStreamSetup s" and b: "outgoingSampleRate s = inputRate" and c: "outputRate = 8000"
  proof -
    define xs where "xs = carried s @ chunk1"
    define s1 where "s1 = snd (audioDataInput chunk1 s)"
    have e1: "resample (speakerGain s) (carried s @ chunk1) (outgoingSampleRate s) 8000
                = Inr (window_bytes (speakerGain s) d xs, Some (drop (length xs div w * w) xs))"
      using r1 [of "speakerGain s" xs] b c by (simp add: xs_def)
    note p1 = audioDataInput_produced [OF a e1, folded s1_def]
    have k1: "carried s1 = drop (length xs div w * w) xs"
      using p1 by (simp add: carried_def)
    have e2: "resample (speakerGain s1) (carried s1 @ chunk2) (outgoingSampleRate s1) 8000
                = Inr (window_bytes (speakerGain s) d (drop (length xs div w * w) xs @ chunk2),
                       Some (drop (length (xs @ chunk2) div w * w) (xs @ chunk2)))"
      using r2 [of "speakerGain s" xs chunk2] p1 k1 b c by simp
    have t1: "talkStreamSetup s1" using p1 by simp
    note p2 = audioDataInput_produced [OF t1 e2]
    have e3: "resample (speakerGain s) (carried s @ chunk1 @ chunk2) (outgoingSampleRate s) 8000
                = Inr (window_bytes (speakerGain s) d xs
                         @ window_bytes (speakerGain s) d (drop (length xs div w * w) xs @ chunk2),
                       Some (drop (length (xs @ chunk2) div w * w) (xs @ chunk2)))"
      using r3 [of "speakerGain s" xs chunk2] b c by (simp add: xs_def)
    note p3 = audioDataInput_produced [OF a e3]
    show ?thesis
      using p1 p2 p3 by (simp add: s1_def)
  qed
  show ?thesis
    using first second unfolding w_def d_def by blast
qed

theorem resample_carry_chunking_witness:
  "resample 1 (pcm_bytes [100, 300, - 100]) 16000 8000
     = Inr (pcm_bytes [200], Some (pcm_bytes [- 100]))
   \<and> resample 1 (pcm_bytes [- 100] @ pcm_bytes [100]) 16000 8000 = Inr (pcm_bytes [0], Some [])
   \<and> resample 1 (pcm_bytes [100, 300, - 100] @ pcm_bytes [100]) 16000 8000
     = Inr (pcm_bytes [200] @ pcm_bytes [0], Some [])
   \<and> produced (snd (audioDataInput (pcm_bytes [100])
                 (snd (audioDataInput (pcm_bytes [100, 300, - 100]) (talk_stream 16000)))))
     = produced (snd (audioDataInput (pcm_bytes [100, 300, - 100] @ pcm_bytes [100])
                       (talk_stream 16000)))"
proof -
  have e: "resample 1 [100, 0, 44, 1, 156, 255] 16000 8000 = Inr ([200, 0], Some [156, 255])"
    "resample 1 [156, 255, 100, 0] 16000 8000 = Inr ([0, 0], Some [])"
    "resample 1 [100, 0, 44, 1, 156, 255, 100, 0] 16000 8000 = Inr ([200, 0, 0, 0], Some [])"
    by (simp_all add: resample_downsample window_bytes.simps sum_samples.simps
          readInt16LE_def clip_def js_round_def int16le_def)
  have b: "pcm_bytes [100, 300, - 100] = [100, 0, 44, 1, 156, 255]"
    "pcm_bytes [100] = [100, 0]" "pcm_bytes [200] = [200, 0]"
    "pcm_bytes [- 100] = [156, 255]" "pcm_bytes [0] = [0, 0]"
    by (simp_all add: pcm_bytes_def int16le_def)
  have t: "talkStreamSetup (talk_stream 16000)" "outgoingSampleRate (talk_stream 16000) = 16000"
    by (simp_all add: talk_stream_def)
  show ?thesis
    using resample_carry_chunking [where outputRate = 8000 and inputRate = 16000
        and s = "talk_stream 16000" and g = 1
        and ?chunk1.0 = "pcm_bytes [100, 300, - 100]" and ?chunk2.0 = "pcm_bytes [100]"] e t
    by (simp add: b)
qed

section \<open>Saturation of the downsampled samples\<close>



section \<open>Rates that do not divide\<close>

text \<open>
  C8, as stated, fails for large rates: the source tests the quotient of the rates as a
  double, and for the rates 1125899906842632064 and 8000, of which neither divides the
  other, that quotient is the integer 140737488355329. \<^verbatim>\<open>resample\<close> does not throw:
  it returns an empty output and carries the samples, and \<^verbatim>\<open>audioDataInput\<close> stores
  them as the carry.
\<close>

theorem uneven_rate_counterexample:
  "\<not> (8000 :: nat) dvd 1125899906842632064
   \<and> \<not> (1125899906842632064 :: nat) dvd 8000
   \<and> integer_quotient 1125899906842632064 8000 = Some 140737488355329
   \<and> resample 1 (pcm_bytes [100, 300]) 1125899906842632064 8000
       = Inr ([], Some (pcm_bytes [100, 300]))
   \<and> resample 1 (pcm_bytes [100, 300]) 1125899906842632064 8000 \<noteq> Inl CannotEvenlyResample
   \<and> audioDataInput (pcm_bytes [100, 300]) (talk_stream 1125899906842632064)
       = (None, (talk_stream 1125899906842632064)
                  \<lparr>audioBuffer := Some (pcm_bytes [100, 300]),
                   audioOutputBuffer := Some []\<rparr>)"
proof -
  have q: "integer_quotient 1125899906842632064 8000 = Some 140737488355329"
    by (simp add: integer_quotient_def double_quotient_def round_half_even_def bitlen.simps)
  have r: "resample 1 xs 1125899906842632064 8000
             = Inr ([], Some xs)" if "length xs = 4" for xs
    using that by (simp add: resample_def q downsample_loop.simps)
  have l: "length (pcm_bytes [100, 300]) = 4"
    by (simp add: pcm_bytes_def)
  show ?thesis
    using r [OF l] q
    by (simp add: audioDataInput_def talk_stream_def)
qed

text \<open>
  C8, amended. For integer rates below \<open>2 ^ 53\<close> of which neither divides the other,
  \<^verbatim>\<open>resample\<close> throws \<^verbatim>\<open>{message: 'Cannot evenly resample.'}\<close> whatever the samples,
  and nothing else: there is no output. In \<^verbatim>\<open>audioDataInput\<close>, on a stream whose
  talk stream is set up, the exception leaves the call with the stream as it was: the
  carry, the output buffer and the frames sent are unchanged.
\<close>

theorem uneven_rate_raises:
  assumes "\<not> outputRate dvd inputRate" and "\<not> inputRate dvd outputRate"
    and "inputRate < 2 ^ 53" and "outputRate < 2 ^ 53"
  shows "resample g samples inputRate outputRate = Inl CannotEvenlyResample
       \<and> (talkStreamSetup s \<and> outgoingSampleRate s = inputRate \<and> outputRate = 8000 \<longrightarrow>
            audioDataInput chunk s = (Some CannotEvenlyResample, s))"
proof -
  have pos: "0 < inputRate" "0 < outputRate"
    using assms(1,2) by (auto intro: gr0I)
  have ne: "inputRate \<noteq> outputRate" using assms(1) by auto
  have r: "resample h xs inputRate outputRate = Inl CannotEvenlyResample" for h xs
  proof (cases "outputRate < inputRate")
    case True
    have "integer_quotient inputRate outputRate = None"
      using assms(1) pos(2) True assms(3) by (rule integer_quotient_uneven)
    then show ?thesis using True pos by (simp add: resample_def)
  next
    case False
    then have lt: "inputRate < outputRate" using ne by simp
    have "integer_quotient outputRate inputRate = None"
      using assms(2) pos(1) lt assms(4) by (rule integer_quotient_uneven)
    then show ?thesis using lt pos by (simp add: resample_def)
  qed
  have "audioDataInput chunk s = (Some CannotEvenlyResample, s)"
    if "talkStreamSetup s" "outgoingSampleRate s = inputRate" "outputRate = 8000"
    using that r [of "speakerGain s" "carried s @ chunk"]
    by (intro audioDataInput_throws) simp_all
  then show ?thesis using r by blast
qed

theorem uneven_rate_raises_witness:
  "resample 1 (pcm_bytes [100, 300]) 11025 8000 = Inl CannotEvenlyResample
   \<and> resample 1 (pcm_bytes [100, 300]) 8000 11025 = Inl CannotEvenlyResample
   \<and> audioDataInput (pcm_bytes [100, 300]) (talk_stream 11025)
       = (Some CannotEvenlyResample, talk_stream 11025)"
proof -
  have a: "\<not> (8000 :: nat) dvd 11025" "\<not> (11025 :: nat) dvd 8000"
    "(11025 :: nat) < 2 ^ 53" "(8000 :: nat) < 2 ^ 53"
    by simp_all
  have t: "talkStreamSetup (talk_stream 11025)" "outgoingSampleRate (talk_stream 11025) = 11025"
    by (simp_all add: talk_stream_def)
  show ?thesis
    using uneven_rate_raises [OF a(1) a(2) a(3) a(4), of 1 "pcm_bytes [100, 300]"
            "talk_stream 11025" "pcm_bytes [100, 300]"]
      uneven_rate_raises [OF a(2) a(1) a(4) a(3), of 1 "pcm_bytes [100, 300]"
            "talk_stream 11025" "pcm_bytes [100, 300]"] t
    by simp
qed

section \<open>Frames of 960 bytes\<close>

text \<open>
  C2, as stated, fails: a call emits at most one frame, so a call that leaves 1920
  bytes or more in the output buffer returns with 960 bytes or more still waiting.
  Here one chunk of 2000 bytes at the rate 8000 sends one frame and keeps 1040 bytes.
\<close>

theorem audioDataInput_remainder_counterexample:
  "length (talkData (snd (audioDataInput (replicate 2000 0) (talk_stream 8000)))) = 1
   \<and> length (buffered (snd (audioDataInput (replicate 2000 0) (talk_stream 8000)))) = 1040
   \<and> \<not> length (buffered (snd (audioDataInput (replicate 2000 0) (talk_stream 8000)))) < 960"
  by (simp add: audioDataInput_def talk_stream_def resample_def buffered_def)

text \<open>
  C2, amended. For a call of \<^verbatim>\<open>audioDataInput\<close> on a stream whose talk stream is
  set up and whose \<^verbatim>\<open>resample\<close> does not throw: with the resampled bytes appended
  to the output buffer, if fewer than 960 bytes are waiting nothing is sent and they
  all stay; otherwise exactly one frame, the first 960 bytes, is sent and the rest
  stays. So fewer than 960 bytes remain exactly when fewer than 1920 were waiting.
  Every frame sent has 960 bytes. The stop request sends nothing, and with the speaker
  enabled it drops the carry and the output buffer and leaves the pipeline inactive.
\<close>

theorem audioDataInput_one_frame:
  assumes "talkStreamSetup s"
    and "resample (speakerGain s) (carried s @ samples) (outgoingSampleRate s) 8000
           = Inr (resampled, carry)"
  shows "(if length (buffered s @ resampled) < 960 then
            talkData (snd (audioDataInput samples s)) = talkData s
            \<and> audioOutputBuffer (snd (audioDataInput samples s)) = Some (buffered s @ resampled)
          else
            talkData (snd (audioDataInput samples s))
              = talkData s @ [take 960 (buffered s @ resampled)]
            \<and> length (take 960 (buffered s @ resampled)) = 960
            \<and> buffered (snd (audioDataInput samples s)) = drop 960 (buffered s @ resampled))
       \<and> (length (buffered (snd (audioDataInput samples s))) < 960
            \<longleftrightarrow> length (buffered s @ resampled) < 1920)
       \<and> talkData (handleStreamRequest_stop t) = talkData t
       \<and> (speakerEnabled t \<longrightarrow>
            audioBuffer (handleStreamRequest_stop t) = None
            \<and> audioOutputBuffer (handleStreamRequest_stop t) = None
            \<and> audioDataInput chunk (handleStreamRequest_stop t)
                 = (None, handleStreamRequest_stop t))"
proof (cases "length (buffered s @ resampled) < 960")
  case True
  show ?thesis
    using True
    by (simp add: audioDataInput_short [OF assms True] buffered_def
          handleStreamRequest_stop_def audioDataInput_inactive)
next
  case False
  then have ge: "960 \<le> length (buffered s @ resampled)" by simp
  show ?thesis
    using False ge
    by (auto simp add: audioDataInput_frame [OF assms ge] buffered_def
          handleStreamRequest_stop_def audioDataInput_inactive)
qed

theorem audioDataInput_one_frame_witness:
  "talkData (snd (audioDataInput (replicate 1000 0) (talk_stream 8000))) = [replicate 960 0]
   \<and> buffered (snd (audioDataInput (replicate 1000 0) (talk_stream 8000))) = replicate 40 0
   \<and> talkData (handleStreamRequest_stop (snd (audioDataInput (replicate 1000 0) (talk_stream 8000))))
       = [replicate 960 0]
   \<and> audioOutputBuffer
         (handleStreamRequest_stop (snd (audioDataInput (replicate 1000 0) (talk_stream 8000))))
       = None"
proof -
  have a: "talkStreamSetup (talk_stream 8000)" by (simp add: talk_stream_def)
  have r: "resample (speakerGain (talk_stream 8000))
             (carried (talk_stream 8000) @ replicate 1000 0)
             (outgoingSampleRate (talk_stream 8000)) 8000
           = Inr (replicate 1000 0, None)"
    by (simp add: talk_stream_def resample_def carried_def)
  have e: "speakerEnabled (snd (audioDataInput (replicate 1000 0) (talk_stream 8000)))"
    by (simp add: audioDataInput_def talk_stream_def resample_def)
  show ?thesis
    using audioDataInput_one_frame [OF a r,
        of "snd (audioDataInput (replicate 1000 0) (talk_stream 8000))" "[]"] e
    by (simp add: buffered_def talk_stream_def)
qed

section \<open>Transport failure\<close>

text \<open>
  C5. When \<^verbatim>\<open>onError\<close> runs with an error on a well-formed client, whatever
  the number of its pending requests, the promise of every one of them is rejected with
  that error, no other promise changes, the mapping of pending requests is left empty,
  and a reconnection is in flight.
\<close>

theorem onError_rejects_all_pending:
  assumes "wf_client s"
  shows "requests (onError e s) = []
       \<and> (\<forall>k \<in> fst ` set (requests s). promises (onError e s) k = Some (Rejected e))
       \<and> (\<forall>k. k \<notin> fst ` set (requests s) \<longrightarrow> promises (onError e s) k = promises s k)
       \<and> pendingReconnect (onError e s)"
proof -
  have "filter (\<lambda>(k, r). k \<notin> fst ` set (requests s)) (requests s) = []"
    by (force simp add: filter_empty_conv)
  moreover have "\<forall>k \<in> fst ` set (requests s). promises s k = Some Pending"
    using assms by (simp add: wf_client_iff)
  ultimately show ?thesis
    by (simp add: onError_def fold_reject_request_requests fold_reject_request_promises)
qed

theorem onError_rejects_all_pending_witness:
  "requests (onError (TransportFailure (js ''ECONNRESET'')) (describing_client accepting_auth)) = []
   \<and> promises (onError (TransportFailure (js ''ECONNRESET'')) (describing_client accepting_auth)) 1
       = Some (Rejected (TransportFailure (js ''ECONNRESET'')))
   \<and> pendingReconnect (onError (TransportFailure (js ''ECONNRESET'')) (describing_client accepting_auth))"
proof -
  have "wf_client (describing_client accepting_auth)"
    by (rule wf_client_examples)
  from onError_rejects_all_pending [OF this, of "TransportFailure (js ''ECONNRESET'')"]
  show ?thesis by (simp add: describing_client_fields)
qed

section \<open>The retry after an authentication challenge\<close>

text \<open>
  C3. On a well-formed client, a response with status 401 arrives for a pending
  request that carried no \<^verbatim>\<open>Authorization\<close> header, and it has a non-empty
  \<^verbatim>\<open>www-authenticate\<close> header.
  If the authenticator computed from the challenge has no error, exactly one request is
  written, and it is the request that was pending, header by header: the same method
  and URI, the next sequence number as \<^verbatim>\<open>CSeq\<close>, the \<^verbatim>\<open>Authorization\<close> header of
  that authenticator, the \<^verbatim>\<open>Session\<close> header that \<^verbatim>\<open>makeRequest\<close> gives every
  request (the session, where there is one and the request set none), and every other
  header as it was. The original request is no longer pending, and its promise follows
  the promise of the retried request, so its caller observes what the retried request
  comes to. If the authenticator has an error, the promise is rejected with an
  authentication error carrying it, and nothing is written. In the instance below the
  retried request is a SETUP and keeps its \<^verbatim>\<open>Transport\<close> header.
\<close>

theorem unauthorized_retried_once:
  assumes wf: "wf_client s"
    and cs: "parseInt_header (rheaders rsp ''cseq'') = Num (int c)"
    and rq: "map_of (requests s) c = Some requestOptions"
    and st: "statusCode rsp = 401"
    and na: "\<not> truthy_header (headers requestOptions ''Authorization'')"
    and ch: "rheaders rsp ''www-authenticate'' = Some challenge" and ne: "challenge \<noteq> []"
  shows "(if truthy_string (err (authenticate s challenge)) then
            (\<exists>msg. err (authenticate s challenge) = Some msg
                \<and> promises (onResponse rsp s) c = Some (Rejected (Authentication msg)))
            \<and> written (onResponse rsp s) = written s
            \<and> cseq (onResponse rsp s) = cseq s
            \<and> map_of (requests (onResponse rsp s)) c = None
          else
            (\<exists>retried.
                written (onResponse rsp s) = written s @ [retried]
              \<and> map_of (requests (onResponse rsp s)) (cseq s) = Some retried
              \<and> req_method retried = req_method requestOptions
              \<and> uri retried = uri requestOptions
              \<and> headers retried ''CSeq'' = Some (HNumber (cseq s))
              \<and> headers retried ''Authorization''
                  = Some (HString (authorize (authenticate s challenge)
                                     (req_method requestOptions) (uri requestOptions)))
              \<and> headers retried ''Session''
                  = (if truthy_string (session (onResponse rsp s))
                        \<and> \<not> truthy_header (headers requestOptions ''Session'')
                     then map_option HString (session (onResponse rsp s))
                     else headers requestOptions ''Session'')
              \<and> (\<forall>name. name \<noteq> ''CSeq'' \<and> name \<noteq> ''Authorization''
                           \<and> name \<noteq> ''Session''
                     \<longrightarrow> headers retried name = headers requestOptions name))
            \<and> map_of (requests (onResponse rsp s)) c = None
            \<and> cseq (onResponse rsp s) = cseq s + 1
            \<and> promises (onResponse rsp s) c = Some (Follows (cseq s))
            \<and> promises (onResponse rsp s) (cseq s) = Some Pending
            \<and> observe (cseq (onResponse rsp s)) (promises (onResponse rsp s)) c
                = observe (cseq (onResponse rsp s)) (promises (onResponse rsp s)) (cseq s))"
proof -
  have lt: "c < cseq s" and pend: "promises s c = Some Pending"
    using wf_client_pending [OF wf rq] by simp_all
  obtain s1 where s1: "onResponse rsp s = done_response c requestOptions rsp s1"
    "requests s1 = requests s" "promises s1 = promises s" "cseq s1 = cseq s"
    "written s1 = written s" "authenticate s1 = authenticate s"
    using onResponse_matched [OF cs rq] by blast
  define s2 where "s2 = s1\<lparr>requests := AList.delete c (requests s1)\<rparr>"
  define a where "a = authenticate s challenge"
  define s3 where "s3 = s2\<lparr>authenticator := Some a\<rparr>"
  have tc: "truthy_string (rheaders rsp ''www-authenticate'')"
    using ch ne by (simp add: truthy_string_def)
  have d: "done_response c requestOptions rsp s1
             = (if truthy_string (err a) then
                  reject c (Authentication (case err a of None \<Rightarrow> [] | Some msg \<Rightarrow> msg)) s3
                else settle c (Follows (fst (makeRequest requestOptions s3)))
                       (snd (makeRequest requestOptions s3)))"
    using st na ch tc s1(6)
    by (simp add: done_response_def Let_def s2_def s3_def a_def split_beta)
  have f3: "requests s3 = AList.delete c (requests s)" "promises s3 = promises s"
    "cseq s3 = cseq s" "written s3 = written s" "authenticator s3 = Some a"
    using s1 by (simp_all add: s3_def s2_def)
  show ?thesis
  proof (cases "truthy_string (err a)")
    case True
    then obtain msg where msg: "err a = Some msg"
      by (auto simp add: truthy_string_def split: option.splits)
    show ?thesis
      using True msg f3 pend
      by (simp add: s1(1) d a_def [symmetric] reject_promises AList.delete_conv')
  next
    case False
    obtain retried where r:
      "written (snd (makeRequest requestOptions s3)) = written s3 @ [retried]"
      "requests (snd (makeRequest requestOptions s3))
         = AList.update (cseq s3) retried (requests s3)"
      "req_method retried = req_method requestOptions" "uri retried = uri requestOptions"
      "headers retried ''CSeq'' = Some (HNumber (cseq s3))"
      "headers retried ''Authorization''
         = Some (HString (authorize a (req_method requestOptions) (uri requestOptions)))"
      "headers retried ''Session''
         = (if truthy_string (session s3) \<and> \<not> truthy_header (headers requestOptions ''Session'')
            then map_option HString (session s3) else headers requestOptions ''Session'')"
      "\<forall>name. name \<noteq> ''CSeq'' \<and> name \<noteq> ''Authorization'' \<and> name \<noteq> ''Session''
         \<longrightarrow> headers retried name = headers requestOptions name"
      using makeRequest_written [of requestOptions s3] f3(5) by auto
    have neq: "c \<noteq> cseq s" using lt by simp
    have o: "observe (Suc (cseq s)) ((promises s)(cseq s \<mapsto> Pending, c \<mapsto> Follows (cseq s))) c
               = observe (Suc (cseq s))
                   ((promises s)(cseq s \<mapsto> Pending, c \<mapsto> Follows (cseq s))) (cseq s)"
      using lt neq by (subst observe.simps) simp
    have e: "onResponse rsp s
               = settle c (Follows (cseq s)) (snd (makeRequest requestOptions s3))"
      using False f3 by (simp add: s1(1) d)
    have pm: "promises (settle c (Follows (cseq s)) (snd (makeRequest requestOptions s3)))
                = (promises s)(cseq s \<mapsto> Pending, c \<mapsto> Follows (cseq s))"
      using pend neq f3 by (auto simp add: settle_promises fun_eq_iff)
    have ss: "session (onResponse rsp s) = session s3"
      by (simp add: e)
    have "\<exists>retried.
                written (onResponse rsp s) = written s @ [retried]
              \<and> map_of (requests (onResponse rsp s)) (cseq s) = Some retried
              \<and> req_method retried = req_method requestOptions
              \<and> uri retried = uri requestOptions
              \<and> headers retried ''CSeq'' = Some (HNumber (cseq s))
              \<and> headers retried ''Authorization''
                  = Some (HString (authorize a (req_method requestOptions) (uri requestOptions)))
              \<and> headers retried ''Session''
                  = (if truthy_string (session (onResponse rsp s))
                        \<and> \<not> truthy_header (headers requestOptions ''Session'')
                     then map_option HString (session (onResponse rsp s))
                     else headers requestOptions ''Session'')
              \<and> (\<forall>name. name \<noteq> ''CSeq'' \<and> name \<noteq> ''Authorization''
                           \<and> name \<noteq> ''Session''
                     \<longrightarrow> headers retried name = headers requestOptions name)"
      unfolding ss
      using r f3
      by (intro exI [of _ retried]) (simp add: e AList.update_conv')
    then show ?thesis
      using False f3 neq o r(2)
      by (simp add: e pm a_def [symmetric] AList.update_conv' AList.delete_conv')
  qed
qed

theorem unauthorized_retried_once_witness:
  "promises (onResponse (response_of 401 [(''cseq'', js ''1''), (''www-authenticate'', js ''Digest realm=cam'')])
              (setting_up_client accepting_auth)) 1 = Some (Follows 2)
   \<and> promises (onResponse (response_of 401 [(''cseq'', js ''1''), (''www-authenticate'', js ''Digest realm=cam'')])
              (setting_up_client accepting_auth)) 2 = Some Pending
   \<and> written (onResponse (response_of 401 [(''cseq'', js ''1''), (''www-authenticate'', js ''Digest realm=cam'')])
              (setting_up_client accepting_auth))
       = [\<lparr>req_method = js ''SETUP'', uri = js ''rtsp://camera/videoMain/track1'',
           headers = [''Transport'' \<mapsto> HString (js ''RTP/AVP;unicast;client_port=5000-5001''),
                      ''CSeq'' \<mapsto> HNumber 1]\<rparr>,
          \<lparr>req_method = js ''SETUP'', uri = js ''rtsp://camera/videoMain/track1'',
           headers = [''Transport'' \<mapsto> HString (js ''RTP/AVP;unicast;client_port=5000-5001''),
                      ''CSeq'' \<mapsto> HNumber 2,
                      ''Authorization'' \<mapsto> HString (js ''Digest username=admin'')]\<rparr>]
   \<and> promises (onResponse (response_of 401 [(''cseq'', js ''1''), (''www-authenticate'', js ''Digest realm=cam'')])
              (setting_up_client failing_auth)) 1
       = Some (Rejected (Authentication (js ''Unsupported scheme'')))
   \<and> length (written (onResponse (response_of 401 [(''cseq'', js ''1''), (''www-authenticate'', js ''Digest realm=cam'')])
              (setting_up_client failing_auth))) = 1"
proof -
  define rsp where
    "rsp = response_of 401 [(''cseq'', js ''1''), (''www-authenticate'', js ''Digest realm=cam'')]"
  define opts where
    "opts = \<lparr>req_method = js ''SETUP'', uri = js ''rtsp://camera/videoMain/track1'',
             headers = [''Transport'' \<mapsto> HString (js ''RTP/AVP;unicast;client_port=5000-5001''),
                        ''CSeq'' \<mapsto> HNumber 1]\<rparr>"
  have n: "js ''Digest realm=cam'' \<noteq> []" "js ''Unsupported scheme'' \<noteq> []"
    by (simp_all add: js_def)
  have p: "parseInt_header (rheaders rsp ''cseq'') = Num (int 1)"
    "statusCode rsp = 401"
    "rheaders rsp ''www-authenticate'' = Some (js ''Digest realm=cam'')"
    by (simp_all add: rsp_def response_of_def parseInt_header_def)
  have q: "map_of (requests (setting_up_client auth)) 1 = Some opts"
    "\<not> truthy_header (headers opts ''Authorization'')" for auth
    by (simp_all add: setting_up_client_fields opts_def truthy_header_def)
  have w: "wf_client (setting_up_client auth)" for auth
    by (rule wf_client_examples)
  have a: "\<not> truthy_string (err (authenticate (setting_up_client accepting_auth) (js ''Digest realm=cam'')))"
    "truthy_string (err (authenticate (setting_up_client failing_auth) (js ''Digest realm=cam'')))"
    "err (failing_auth (js ''Digest realm=cam'')) = Some (js ''Unsupported scheme'')"
    "authorize (accepting_auth (js ''Digest realm=cam'')) m u = js ''Digest username=admin''" for m u
    by (simp_all add: setting_up_client_fields accepting_auth_def failing_auth_def
          truthy_string_def n)
  have wr: "written (onResponse rsp (setting_up_client accepting_auth))
              = [opts, opts\<lparr>headers := (headers opts)(''CSeq'' \<mapsto> HNumber 2,
                   ''Authorization'' \<mapsto> HString (js ''Digest username=admin''))\<rparr>]"
    using n
    by (simp add: rsp_def response_of_def parseInt_header_def onResponse_def
          done_response_def makeRequest_def Let_def truthy_header_def truthy_string_def
          setting_up_client_fields opts_def split_beta settle_def accepting_auth_def)
  show ?thesis
    using unauthorized_retried_once [OF w p(1) q(1) p(2) q(2) p(3) n(1), of accepting_auth]
      unauthorized_retried_once [OF w p(1) q(1) p(2) q(2) p(3) n(1), of failing_auth] a wr
    by (auto simp add: rsp_def [symmetric] setting_up_client_fields opts_def)
qed

section \<open>The session identifier\<close>

text \<open>
  C10, as stated, fails in two places. A response that matches no pending request is
  dropped before its session header is read: below, sequence number 7 is not pending
  and the session stays unset. And a session header that begins with a semicolon stores
  the empty identifier, which \<^verbatim>\<open>makeRequest\<close> takes for no session: the next
  request carries no \<^verbatim>\<open>Session\<close> header.
\<close>

theorem session_before_semicolon_counterexample:
  "session (onResponse (response_of 200 [(''cseq'', js ''7''), (''session'', js ''ABCD;timeout=60'')])
             (describing_client accepting_auth)) = None
   \<and> session (onResponse (response_of 200 [(''cseq'', js ''1''), (''session'', js '';timeout=60'')])
             (describing_client accepting_auth)) = Some []
   \<and> headers (last (written (snd (makeRequest describe_options
        (onResponse (response_of 200 [(''cseq'', js ''1''), (''session'', js '';timeout=60'')])
           (describing_client accepting_auth)))))) ''Session'' = None"
proof -
  have sp: "js_split (59 :: code_unit) (js '';timeout=60'') = [[], js ''timeout=60'']"
    and ne: "js '';timeout=60'' \<noteq> []" "js ''ABCD;timeout=60'' \<noteq> []"
    by (simp_all add: js_def)
  show ?thesis
    by (simp add: onResponse_def done_response_def response_of_def parseInt_header_def
          describing_client_fields truthy_string_def truthy_header_def describe_options_def
          resolve_def settle_def newSession_def clearInterval_def makeRequest_def Let_def
          response_data_def describing_client_def new_client_def connected_def reconnect_def
          sp ne)
qed

text \<open>
  C10, amended. For every response that matches a pending request and whose session
  header contains a semicolon, the session stored is the part of the header before the
  first semicolon; and when that part is not empty, a later request made while it is
  the session, whose options carry no \<^verbatim>\<open>Session\<close> header, is written with it as its
  \<^verbatim>\<open>Session\<close> header.
\<close>

theorem session_before_semicolon:
  assumes "parseInt_header (rheaders rsp ''cseq'') = Num (int c)"
    and "map_of (requests s) c = Some requestOptions"
    and "rheaders rsp ''session'' = Some v" and "of_char CHR '';'' \<in> set v"
  shows "session (onResponse rsp s) = Some (takeWhile (\<lambda>x. x \<noteq> of_char CHR '';'') v)
       \<and> (takeWhile (\<lambda>x. x \<noteq> of_char CHR '';'') v \<noteq> []
            \<and> session t = session (onResponse rsp s)
            \<and> \<not> truthy_header (headers options ''Session'')
          \<longrightarrow> (\<exists>sent. written (snd (makeRequest options t)) = written t @ [sent]
                 \<and> headers sent ''Session''
                     = Some (HString (takeWhile (\<lambda>x. x \<noteq> of_char CHR '';'') v))))"
proof -
  have ne: "v \<noteq> []" using assms(4) by auto
  obtain s1 where s1: "onResponse rsp s = done_response c requestOptions rsp s1"
    "session s1 = Some (takeWhile (\<lambda>x. x \<noteq> of_char CHR '';'') v)"
    using onResponse_matched [OF assms(1,2)] assms(3) ne by auto
  have a: "session (onResponse rsp s) = Some (takeWhile (\<lambda>x. x \<noteq> of_char CHR '';'') v)"
    by (simp add: s1)
  have b: "\<exists>sent. written (snd (makeRequest options t)) = written t @ [sent]
                 \<and> headers sent ''Session''
                     = Some (HString (takeWhile (\<lambda>x. x \<noteq> of_char CHR '';'') v))"
    if "takeWhile (\<lambda>x. x \<noteq> of_char CHR '';'') v \<noteq> []" "session t = session (onResponse rsp s)"
      "\<not> truthy_header (headers options ''Session'')"
    using makeRequest_written [of options t] that a
    by (auto simp add: truthy_string_def)
  show ?thesis using a b by blast
qed

theorem session_before_semicolon_witness:
  "session (onResponse (response_of 200 [(''cseq'', js ''1''), (''session'', js ''ABCD;timeout=60'')])
             (describing_client accepting_auth)) = Some (js ''ABCD'')
   \<and> (\<exists>sent. written (snd (makeRequest describe_options
                 (onResponse (response_of 200 [(''cseq'', js ''1''), (''session'', js ''ABCD;timeout=60'')])
                    (describing_client accepting_auth))))
            = written (onResponse (response_of 200 [(''cseq'', js ''1''), (''session'', js ''ABCD;timeout=60'')])
                    (describing_client accepting_auth)) @ [sent]
          \<and> headers sent ''Session'' = Some (HString (js ''ABCD'')))"
proof -
  define rsp where
    "rsp = response_of 200 [(''cseq'', js ''1''), (''session'', js ''ABCD;timeout=60'')]"
  have p: "parseInt_header (rheaders rsp ''cseq'') = Num (int 1)"
    "rheaders rsp ''session'' = Some (js ''ABCD;timeout=60'')"
    "of_char CHR '';'' \<in> set (js ''ABCD;timeout=60'')"
    by (simp_all add: rsp_def response_of_def parseInt_header_def js_def [of "''ABCD;timeout=60''"])
  have q: "map_of (requests (describing_client accepting_auth)) 1
             = Some (describe_options\<lparr>headers := [''CSeq'' \<mapsto> HNumber 1]\<rparr>)"
    by (simp add: describing_client_fields)
  have h: "\<not> truthy_header (headers describe_options ''Session'')"
    by (simp add: describe_options_def truthy_header_def)
  have tw: "takeWhile (\<lambda>x. x \<noteq> (59 :: code_unit)) (js ''ABCD;timeout=60'') = js ''ABCD''"
    "js ''ABCD'' \<noteq> []"
    by (simp_all add: js_def)
  show ?thesis
    using session_before_semicolon [OF p(1) q p(2) p(3),
            of "onResponse rsp (describing_client accepting_auth)" describe_options] h
    by (simp add: rsp_def [symmetric] tw)
qed

section \<open>SETUP: a source that does not resolve\<close>

text \<open>
  C1. The claim is that \<^verbatim>\<open>setup\<close> is rejected, with an error naming the host,
  whenever the source is no literal address and its resolution gives an error or no
  address. The code does not do so: in the callback of \<^verbatim>\<open>dns.resolve\<close> it builds the
  rejection \<^verbatim>\<open>{message: 'Could not resolve source.', source}\<close> with
  \<^verbatim>\<open>Promise.reject\<close> and returns it to the resolver, and never calls the
  \<^verbatim>\<open>reject\<close> of the promise it returned. For the transport string
  \<^verbatim>\<open>server_port=6970-6971;source=camera.local\<close>, with a resolver that fails or finds
  no address, the promise of \<^verbatim>\<open>setup\<close> stays pending.
\<close>

theorem setup_resolution_failure_pending:
  "setup_then example_isV4Format example_isV6Format failing_dns
      (setup_result (Some (js ''server_port=6970-6971;source=camera.local''))) = Pending
   \<and> setup_then example_isV4Format example_isV6Format empty_dns
      (setup_result (Some (js ''server_port=6970-6971;source=camera.local''))) = Pending
   \<and> setup_then example_isV4Format example_isV6Format failing_dns
      (setup_result (Some (js ''server_port=6970-6971;source=camera.local'')))
       \<noteq> Rejected (CouldNotResolveSource (js ''camera.local''))"
proof -
  have t: "rheaders (response (setup_result (Some transport))) ''transport'' = Some transport"
    for transport
    by (simp add: setup_result_def)
  have ne: "js ''server_port=6970-6971;source=camera.local'' \<noteq> []"
    by (simp add: js_def)
  have "setup_then example_isV4Format example_isV6Format dns_resolve
      (setup_result (Some (js ''server_port=6970-6971;source=camera.local''))) = Pending"
    if "dns_resolve (js ''camera.local'') = Inl e \<or> dns_resolve (js ''camera.local'') = Inr []"
    for dns_resolve :: "js_string \<Rightarrow> js_string + js_string list" and e
    using that
    by (intro setup_then_unresolved [OF t ne setup_transport_examples(4)])
       (simp_all add: example_isV4Format_def example_isV6Format_def truthy_number_def js_def)
  from this [of failing_dns "js ''ENOTFOUND''"] this [of empty_dns]
  show ?thesis by (simp add: failing_dns_def empty_dns_def)
qed

section \<open>SETUP: parsing the transport string\<close>

text \<open>
  What the specification reads off the example strings: an unparsable port is
  \<^verbatim>\<open>NaN\<close>, white space before a port, here U+00A0, is skipped, and a number is
  the double nearest to what its digits write.
\<close>

lemma spec_of_setup_transport:
  assumes "setup_transport transport = (src, Some p, Some q)"
  shows "spec_value (js ''source'') transport = src \<and> spec_ports transport = Some (p, q)"
  using assms unfolding setup_transport_spec by (cases "spec_ports transport") auto

lemma spec_of_setup_transport_none:
  assumes "setup_transport transport = (src, None, None)"
  shows "spec_value (js ''source'') transport = src \<and> spec_ports transport = None"
  using assms unfolding setup_transport_spec by (cases "spec_ports transport") auto

lemmas spec_examples =
  spec_of_setup_transport [OF setup_transport_examples(1)]
  spec_of_setup_transport [OF setup_transport_examples(2)]
  spec_of_setup_transport [OF setup_transport_examples(3)]
  spec_of_setup_transport [OF setup_transport_examples(4)]
  spec_of_setup_transport_none [OF setup_transport_examples(5)]
  spec_of_setup_transport [OF setup_transport_examples(6)]
  spec_of_setup_transport [OF setup_transport_examples(7)]
  spec_of_setup_transport [OF setup_transport_examples(8)]
  spec_of_setup_transport [OF setup_transport_examples(9)]
  spec_of_setup_transport [OF setup_transport_examples(10)]

text \<open>
  C4, as stated, fails for the empty transport header: neither source nor port can be
  determined from it, and \<^verbatim>\<open>setup\<close> rejects with
  \<^verbatim>\<open>{message: 'No transport.', response}\<close>, which is not the parse error and does not
  carry the string.
\<close>

theorem setup_empty_transport_counterexample:
  "setup_transport [] = (None, None, None)
   \<and> setup_then example_isV4Format example_isV6Format empty_dns (setup_result (Some []))
       = Rejected (NoTransport (response (setup_result (Some []))))
   \<and> setup_then example_isV4Format example_isV6Format empty_dns (setup_result (Some []))
       \<noteq> Rejected (CouldNotParseTransport [] None None None)"
  by (simp add: setup_then_def setup_result_def truthy_string_def setup_transport_def
        setup_value_def)

text \<open>
  C4, amended. For a response whose transport header is a non-empty string:
  \<^verbatim>\<open>server_port=6970-6971;source=192.0.2.5\<close> gives the source 192.0.2.5 (which the
  address test accepts), RTP port 6970 and RTCP port 6971; the single port of
  \<^verbatim>\<open>server_port=6970\<close> is parsed as RTP port 6970 and RTCP port 6970, and with the
  source added \<^verbatim>\<open>setup\<close> resolves with both. The loop of \<^verbatim>\<open>setup\<close> parses what the
  specification describes: the source is the value of the last \<^verbatim>\<open>source\<close> token, the
  ports are read off the value of the last \<^verbatim>\<open>server_port\<close> token, the RTCP port being
  the RTP port when only one is given. Whenever these are not all determined (no source
  or an empty one, no \<^verbatim>\<open>server_port\<close>, a port that is not a number, as in
  \<^verbatim>\<open>server_port=abc\<close>, or is 0), \<^verbatim>\<open>setup\<close> rejects with the parse error carrying
  the string and the three parsed values; and when they are all determined and the source
  is a literal address, \<^verbatim>\<open>setup\<close> resolves with them.
\<close>

theorem setup_transport_parsing:
  assumes "rheaders (response res) ''transport'' = Some transport" and "transport \<noteq> []"
  shows "(transport = js ''server_port=6970-6971;source=192.0.2.5''
            \<and> isV4Format (js ''192.0.2.5'')
            \<longrightarrow> setup_then isV4Format isV6Format dns_resolve res
                  = Fulfilled \<lparr>source = js ''192.0.2.5'', rtpPort = Num 6970,
                               rtcpPort = Num 6971\<rparr>)
       \<and> setup_transport (js ''server_port=6970'') = (None, Some (Num 6970), Some (Num 6970))
       \<and> (transport = js ''server_port=6970;source=192.0.2.5''
            \<and> isV4Format (js ''192.0.2.5'')
            \<longrightarrow> setup_then isV4Format isV6Format dns_resolve res
                  = Fulfilled \<lparr>source = js ''192.0.2.5'', rtpPort = Num 6970,
                               rtcpPort = Num 6970\<rparr>)
       \<and> setup_transport transport
           = (spec_value (js ''source'') transport,
              map_option fst (spec_ports transport), map_option snd (spec_ports transport))
       \<and> (\<not> spec_determined transport
            \<longrightarrow> setup_then isV4Format isV6Format dns_resolve res
                  = Rejected (CouldNotParseTransport transport
                       (spec_value (js ''source'') transport)
                       (map_option fst (spec_ports transport))
                       (map_option snd (spec_ports transport))))
       \<and> (spec_determined transport
            \<and> spec_value (js ''source'') transport = Some host
            \<and> spec_ports transport = Some (p, q)
            \<and> (isV4Format host \<or> isV6Format host)
            \<longrightarrow> setup_then isV4Format isV6Format dns_resolve res
                  = Fulfilled \<lparr>source = host, rtpPort = p, rtcpPort = q\<rparr>)
       \<and> (transport = js ''server_port=abc;source=192.0.2.5''
            \<longrightarrow> setup_then isV4Format isV6Format dns_resolve res
                  = Rejected (CouldNotParseTransport transport (Some (js ''192.0.2.5''))
                       (Some NaN) (Some NaN)))
       \<and> (setup_transport transport = (src, rtp, rtcp)
            \<and> \<not> (truthy_string src \<and> truthy_number rtp \<and> truthy_number rtcp)
            \<longrightarrow> setup_then isV4Format isV6Format dns_resolve res
                  = Rejected (CouldNotParseTransport transport src rtp rtcp))"
proof -
  have a: "setup_then isV4Format isV6Format dns_resolve res
             = Fulfilled \<lparr>source = js ''192.0.2.5'', rtpPort = Num 6970, rtcpPort = Num 6971\<rparr>"
    if "transport = js ''server_port=6970-6971;source=192.0.2.5''"
      "isV4Format (js ''192.0.2.5'')"
    using that assms
    by (intro setup_then_literal [where transport = transport])
       (simp_all add: setup_transport_examples truthy_number_def js_def [of "''192.0.2.5''"])
  have b: "setup_then isV4Format isV6Format dns_resolve res
             = Fulfilled \<lparr>source = js ''192.0.2.5'', rtpPort = Num 6970, rtcpPort = Num 6970\<rparr>"
    if "transport = js ''server_port=6970;source=192.0.2.5''" "isV4Format (js ''192.0.2.5'')"
    using that assms
    by (intro setup_then_literal [where transport = transport])
       (simp_all add: setup_transport_examples truthy_number_def js_def [of "''192.0.2.5''"])
  have c: "setup_then isV4Format isV6Format dns_resolve res
             = Rejected (CouldNotParseTransport transport src rtp rtcp)"
    if "setup_transport transport = (src, rtp, rtcp)"
      "\<not> (truthy_string src \<and> truthy_number rtp \<and> truthy_number rtcp)"
    using that by (intro setup_then_rejects [OF assms])
  have d: "setup_then isV4Format isV6Format dns_resolve res
             = Rejected (CouldNotParseTransport transport
                  (spec_value (js ''source'') transport)
                  (map_option fst (spec_ports transport))
                  (map_option snd (spec_ports transport)))"
    if "\<not> spec_determined transport"
    using that
    by (intro setup_then_rejects [OF assms setup_transport_spec])
       (simp add: spec_determined_def)
  have e: "setup_then isV4Format isV6Format dns_resolve res
             = Fulfilled \<lparr>source = host, rtpPort = p, rtcpPort = q\<rparr>"
    if "spec_determined transport" "spec_value (js ''source'') transport = Some host"
      "spec_ports transport = Some (p, q)" "isV4Format host \<or> isV6Format host"
  proof -
    have "setup_transport transport = (Some host, Some p, Some q)"
      using that(2,3) by (simp add: setup_transport_spec)
    moreover have "host \<noteq> []" "truthy_number (Some p)" "truthy_number (Some q)"
      using that(1-3) by (simp_all add: spec_determined_def truthy_string_def)
    ultimately show ?thesis
      using that(4) by (intro setup_then_literal [OF assms])
  qed
  have f: "setup_then isV4Format isV6Format dns_resolve res
             = Rejected (CouldNotParseTransport transport (Some (js ''192.0.2.5''))
                  (Some NaN) (Some NaN))"
    if "transport = js ''server_port=abc;source=192.0.2.5''"
    using that
    by (intro setup_then_rejects [OF assms])
       (simp_all add: setup_transport_examples truthy_number_def)
  show ?thesis
    using a b c d e f setup_transport_examples(2) setup_transport_spec [of transport]
    by blast
qed

theorem setup_transport_parsing_witness:
  "setup_then example_isV4Format example_isV6Format empty_dns
      (setup_result (Some (js ''server_port=6970-6971;source=192.0.2.5'')))
     = Fulfilled \<lparr>source = js ''192.0.2.5'', rtpPort = Num 6970, rtcpPort = Num 6971\<rparr>
   \<and> setup_then example_isV4Format example_isV6Format empty_dns
      (setup_result (Some (js ''server_port=6970;source=192.0.2.5'')))
     = Fulfilled \<lparr>source = js ''192.0.2.5'', rtpPort = Num 6970, rtcpPort = Num 6970\<rparr>
   \<and> setup_then example_isV4Format example_isV6Format empty_dns
      (setup_result (Some (js ''server_port=6970'')))
     = Rejected (CouldNotParseTransport (js ''server_port=6970'') None (Some (Num 6970))
                   (Some (Num 6970)))
   \<and> setup_then example_isV4Format example_isV6Format empty_dns
      (setup_result (Some (js ''RTP/AVP;unicast;source=192.0.2.5'')))
     = Rejected (CouldNotParseTransport (js ''RTP/AVP;unicast;source=192.0.2.5'')
                   (Some (js ''192.0.2.5'')) None None)
   \<and> setup_then example_isV4Format example_isV6Format empty_dns
      (setup_result (Some (js ''server_port=abc;source=192.0.2.5'')))
     = Rejected (CouldNotParseTransport (js ''server_port=abc;source=192.0.2.5'')
                   (Some (js ''192.0.2.5'')) (Some NaN) (Some NaN))
   \<and> setup_then example_isV4Format example_isV6Format empty_dns
      (setup_result (Some (js ''server_port=6970-;source=192.0.2.5'')))
     = Rejected (CouldNotParseTransport (js ''server_port=6970-;source=192.0.2.5'')
                   (Some (js ''192.0.2.5'')) (Some (Num 6970)) (Some NaN))
   \<and> setup_then example_isV4Format example_isV6Format empty_dns
      (setup_result (Some (js ''server_port=0;source=192.0.2.5'')))
     = Rejected (CouldNotParseTransport (js ''server_port=0;source=192.0.2.5'')
                   (Some (js ''192.0.2.5'')) (Some (Num 0)) (Some (Num 0)))
   \<and> setup_then example_isV4Format example_isV6Format empty_dns
      (setup_result (Some nbsp_transport))
     = Fulfilled \<lparr>source = js ''192.0.2.5'', rtpPort = Num 6970, rtcpPort = Num 6970\<rparr>
   \<and> setup_then example_isV4Format example_isV6Format empty_dns
      (setup_result (Some (js ''server_port=9007199254740993;source=192.0.2.5'')))
     = Fulfilled \<lparr>source = js ''192.0.2.5'', rtpPort = Num 9007199254740992,
                  rtcpPort = Num 9007199254740992\<rparr>"
proof -
  have t: "rheaders (response (setup_result (Some transport))) ''transport'' = Some transport"
    for transport
    by (simp add: setup_result_def)
  have n: "js ''server_port=6970-6971;source=192.0.2.5'' \<noteq> []"
    "js ''server_port=6970;source=192.0.2.5'' \<noteq> []"
    "js ''server_port=6970'' \<noteq> []"
    "js ''RTP/AVP;unicast;source=192.0.2.5'' \<noteq> []"
    "js ''server_port=abc;source=192.0.2.5'' \<noteq> []"
    "js ''server_port=6970-;source=192.0.2.5'' \<noteq> []"
    "js ''server_port=0;source=192.0.2.5'' \<noteq> []"
    "nbsp_transport \<noteq> []"
    "js ''192.0.2.5'' \<noteq> []"
    "js ''server_port=9007199254740993;source=192.0.2.5'' \<noteq> []"
    by (simp_all add: js_def nbsp_transport_def)
  have v: "example_isV4Format (js ''192.0.2.5'')"
    by (simp add: example_isV4Format_def)
  note w = setup_transport_parsing [OF t, where isV4Format = example_isV4Format
      and isV6Format = example_isV6Format and dns_resolve = empty_dns
      and host = "js ''192.0.2.5''" and src = None and rtp = None and rtcp = None]
  note s = spec_examples spec_determined_def truthy_string_def truthy_number_def
  have "setup_then example_isV4Format example_isV6Format empty_dns
      (setup_result (Some (js ''server_port=6970-6971;source=192.0.2.5'')))
     = Fulfilled \<lparr>source = js ''192.0.2.5'', rtpPort = Num 6970, rtcpPort = Num 6971\<rparr>"
    using w [OF n(1), of "Num 6970" "Num 6971"] v by simp
  moreover have "setup_then example_isV4Format example_isV6Format empty_dns
      (setup_result (Some (js ''server_port=6970;source=192.0.2.5'')))
     = Fulfilled \<lparr>source = js ''192.0.2.5'', rtpPort = Num 6970, rtcpPort = Num 6970\<rparr>"
    using w [OF n(2), of "Num 6970" "Num 6970"] v by simp
  moreover have "setup_then example_isV4Format example_isV6Format empty_dns
      (setup_result (Some (js ''server_port=6970'')))
     = Rejected (CouldNotParseTransport (js ''server_port=6970'') None (Some (Num 6970))
                   (Some (Num 6970)))"
    using w [OF n(3), of "Num 6970" "Num 6970"] by (simp add: s)
  moreover have "setup_then example_isV4Format example_isV6Format empty_dns
      (setup_result (Some (js ''RTP/AVP;unicast;source=192.0.2.5'')))
     = Rejected (CouldNotParseTransport (js ''RTP/AVP;unicast;source=192.0.2.5'')
                   (Some (js ''192.0.2.5'')) None None)"
    using w [OF n(4), of "Num 6970" "Num 6970"] by (simp add: s)
  moreover have "setup_then example_isV4Format example_isV6Format empty_dns
      (setup_result (Some (js ''server_port=abc;source=192.0.2.5'')))
     = Rejected (CouldNotParseTransport (js ''server_port=abc;source=192.0.2.5'')
                   (Some (js ''192.0.2.5'')) (Some NaN) (Some NaN))"
    using w [OF n(5), of "Num 6970" "Num 6970"] by (simp add: s)
  moreover have "setup_then example_isV4Format example_isV6Format empty_dns
      (setup_result (Some (js ''server_port=6970-;source=192.0.2.5'')))
     = Rejected (CouldNotParseTransport (js ''server_port=6970-;source=192.0.2.5'')
                   (Some (js ''192.0.2.5'')) (Some (Num 6970)) (Some NaN))"
    using w [OF n(6), of "Num 6970" "Num 6970"] by (simp add: s)
  moreover have "setup_then example_isV4Format example_isV6Format empty_dns
      (setup_result (Some (js ''server_port=0;source=192.0.2.5'')))
     = Rejected (CouldNotParseTransport (js ''server_port=0;source=192.0.2.5'')
                   (Some (js ''192.0.2.5'')) (Some (Num 0)) (Some (Num 0)))"
    using w [OF n(7), of "Num 6970" "Num 6970"] by (simp add: s)
  moreover have "setup_then example_isV4Format example_isV6Format empty_dns
      (setup_result (Some nbsp_transport))
     = Fulfilled \<lparr>source = js ''192.0.2.5'', rtpPort = Num 6970, rtcpPort = Num 6970\<rparr>"
    using w [OF n(8), of "Num 6970" "Num 6970"] v n(9) by (simp add: s)
  moreover have "setup_then example_isV4Format example_isV6Format empty_dns
      (setup_result (Some (js ''server_port=9007199254740993;source=192.0.2.5'')))
     = Fulfilled \<lparr>source = js ''192.0.2.5'', rtpPort = Num 9007199254740992,
                  rtcpPort = Num 9007199254740992\<rparr>"
    using w [OF n(10), of "Num 9007199254740992" "Num 9007199254740992"] v n(9)
    by (simp add: s)
  ultimately show ?thesis
    by (intro conjI)
qed

end
